theory Spec2Isabelle
  imports Complex_Main "HOL-Library.Word" "HOL-Library.Multiset"
begin

section \<open>JavaScript values as the web client sees them\<close>

text \<open>
  The web client (\<^verbatim>\<open>web/src/app/page.tsx\<close> and the two case pages) is TypeScript.
  Values of type \<^verbatim>\<open>unknown\<close> or \<^verbatim>\<open>any\<close> (route parameters, parsed JSON) are modelled
  by a datatype of plain JavaScript values. A number is NaN, an infinity or a finite
  value; finite doubles are embedded in the rationals (negative zero coincides with
  zero: both are falsy and both are \<^verbatim>\<open>=== 0\<close>).
\<close>

datatype jsnum = NaN | PosInf | NegInf | Finite rat

datatype jsval =
    Undefined
  | Null
  | Bool bool
  | Num jsnum
  | Str string
  | Arr "jsval list"
  | Obj "(string \<times> jsval) list"

datatype js_error = TypeError

text \<open>The \<^verbatim>\<open>typeof\<close> operator on plain values.\<close>

fun typeof :: "jsval \<Rightarrow> string" where
  "typeof Undefined = ''undefined''"
| "typeof Null = ''object''"
| "typeof (Bool b) = ''boolean''"
| "typeof (Num n) = ''number''"
| "typeof (Str s) = ''string''"
| "typeof (Arr xs) = ''object''"
| "typeof (Obj kvs) = ''object''"

fun isArray :: "jsval \<Rightarrow> bool" where
  "isArray (Arr xs) = True"
| "isArray v = False"

text \<open>
  The expression \<^verbatim>\<open>v[0]\<close>: a TypeError on \<^verbatim>\<open>null\<close> and \<^verbatim>\<open>undefined\<close>, the first element
  of an array (\<^verbatim>\<open>undefined\<close> when it has none), the first character of a string, the
  property \<^verbatim>\<open>"0"\<close> of an object, and \<^verbatim>\<open>undefined\<close> on booleans and numbers.
\<close>

fun index0 :: "jsval \<Rightarrow> js_error + jsval" where
  "index0 Undefined = Inl TypeError"
| "index0 Null = Inl TypeError"
| "index0 (Arr xs) = Inr (case xs of [] \<Rightarrow> Undefined | x # _ \<Rightarrow> x)"
| "index0 (Str s) = Inr (case s of [] \<Rightarrow> Undefined | c # _ \<Rightarrow> Str [c])"
| "index0 (Obj kvs) = Inr (case map_of kvs ''0'' of None \<Rightarrow> Undefined | Some x \<Rightarrow> x)"
| "index0 (Bool b) = Inr Undefined"
| "index0 (Num n) = Inr Undefined"

section \<open>Case pages: \<^verbatim>\<open>asStringParam\<close>\<close>

text \<open>
  \<^verbatim>\<open>
  function asStringParam(v: unknown): string {
    if (typeof v === "string") return v;
    if (Array.isArray(v) && typeof v[0] === "string") return v[0];
    return "";
  }
  \<close>
  The same text stands in both case pages. \<^verbatim>\<open>&&\<close> evaluates \<^verbatim>\<open>v[0]\<close> only when \<^verbatim>\<open>v\<close> is
  an array; the result is the returned value, or the error thrown.
\<close>

definition asStringParam :: "jsval \<Rightarrow> js_error + jsval" where
  "asStringParam v =
     (if typeof v = ''string'' then Inr v
      else if isArray v then
        (case index0 v of
           Inl e \<Rightarrow> Inl e
         | Inr x \<Rightarrow> if typeof x = ''string'' then index0 v else Inr (Str ''''))
      else Inr (Str ''''))"

section \<open>Landing page: \<^verbatim>\<open>prettyBytes\<close>\<close>

text \<open>
  \<^verbatim>\<open>
  function prettyBytes(n: number) {
    if (!n && n !== 0) return "";
    const units = ["B", "KB", "MB", "GB"];
    let x = n;
    let i = 0;
    while (x >= 1024 && i < units.length - 1) {
      x = x / 1024;
      i++;
    }
    return `${x.toFixed(i === 0 ? 0 : 1)} ${units[i]}`;
  }
  \<close>
  \<^verbatim>\<open>!n\<close> holds of NaN and of zero; \<^verbatim>\<open>x >= c\<close> is false of NaN. The division is only
  evaluated when \<^verbatim>\<open>x >= 1024\<close>, where dividing a double by the power of two 1024 is
  exact, so the rational quotient is the double's. \<^verbatim>\<open>Number.prototype.toFixed\<close> is a
  parameter of the model (value and number of digits to text).
\<close>

fun num_falsy :: "jsnum \<Rightarrow> bool" where
  "num_falsy NaN = True"
| "num_falsy (Finite q) = (q = 0)"
| "num_falsy PosInf = False"
| "num_falsy NegInf = False"

fun num_ge :: "jsnum \<Rightarrow> rat \<Rightarrow> bool" where
  "num_ge NaN c = False"
| "num_ge PosInf c = True"
| "num_ge NegInf c = False"
| "num_ge (Finite q) c = (c \<le> q)"

fun num_div :: "jsnum \<Rightarrow> rat \<Rightarrow> jsnum" where
  "num_div NaN c = NaN"
| "num_div PosInf c = PosInf"
| "num_div NegInf c = NegInf"
| "num_div (Finite q) c = Finite (q / c)"

definition units :: "string list" where
  "units = [''B'', ''KB'', ''MB'', ''GB'']"

function prettyBytes_loop :: "jsnum \<Rightarrow> nat \<Rightarrow> jsnum \<times> nat" where
  "prettyBytes_loop x i =
     (if num_ge x 1024 \<and> i < length units - 1
      then prettyBytes_loop (num_div x 1024) (i + 1)
      else (x, i))"
  by pat_completeness auto
termination
  by (relation "measure (\<lambda>(x, i). length units - 1 - i)") auto

declare prettyBytes_loop.simps [simp del]

definition prettyBytes :: "(jsnum \<Rightarrow> nat \<Rightarrow> string) \<Rightarrow> jsnum \<Rightarrow> string" where
  "prettyBytes toFixed n =
     (if num_falsy n \<and> n \<noteq> Finite 0 then ''''
      else case prettyBytes_loop n 0 of
        (x, i) \<Rightarrow>
          toFixed x (if i = 0 then 0 else 1) @ '' '' @
          (if i < length units then units ! i else ''undefined''))"

section \<open>Landing page: the state badge\<close>

text \<open>
  Modelled from the spec: the enumeration type itself is not declared in the client
  (\<^verbatim>\<open>AnalysisResult.provenance_state\<close> is a \<^verbatim>\<open>string\<close>); section 6 of the specification
  fixes it as a closed enumeration of three values, written on the wire by their names.
\<close>

datatype provenance_state =
    VERIFIED_ORIGINAL
  | ALTERED_OR_BROKEN_PROVENANCE
  | UNVERIFIABLE_NO_PROVENANCE

fun wire_name :: "provenance_state \<Rightarrow> string" where
  "wire_name VERIFIED_ORIGINAL = ''VERIFIED_ORIGINAL''"
| "wire_name ALTERED_OR_BROKEN_PROVENANCE = ''ALTERED_OR_BROKEN_PROVENANCE''"
| "wire_name UNVERIFIABLE_NO_PROVENANCE = ''UNVERIFIABLE_NO_PROVENANCE''"

text \<open>
  \<^verbatim>\<open>
  const stateBadge = useMemo(() => {
    const s = result?.provenance_state || "";
    if (s === "VERIFIED_ORIGINAL") return { label: "Verified (C2PA)", cls: "border-emerald-200 bg-emerald-50 text-emerald-800" };
    if (s === "ALTERED_OR_BROKEN_PROVENANCE") return { label: "Altered / Broken provenance", cls: "border-amber-200 bg-amber-50 text-amber-900" };
    if (s === "UNVERIFIABLE_NO_PROVENANCE") return { label: "No provenance (unverifiable)", cls: "border-slate-200 bg-slate-100 text-slate-800" };
    return { label: s || "(em dash)", cls: "border-slate-200 bg-slate-100 text-slate-800" };
  }, [result?.provenance_state]);
  \<close>
  The argument is \<^verbatim>\<open>result?.provenance_state\<close>: \<open>None\<close> when there is no result, a string
  otherwise (its static type). The fallback label of the empty string is an em dash,
  U+2014, here its three UTF-8 bytes.
\<close>

record badge =
  label :: string
  cls :: string

definition or_else :: "string \<Rightarrow> string \<Rightarrow> string" where
  \<comment> \<open>\<^verbatim>\<open>s || d\<close> on strings: the empty string is falsy\<close>
  "or_else s d = (if s = '''' then d else s)"

definition em_dash :: string where
  "em_dash = [char_of (226::nat), char_of (128::nat), char_of (148::nat)]"

definition stateBadge :: "string option \<Rightarrow> badge" where
  "stateBadge ps =
     (let s = or_else (case ps of None \<Rightarrow> '''' | Some v \<Rightarrow> v) '''' in
      if s = ''VERIFIED_ORIGINAL'' then
        \<lparr>label = ''Verified (C2PA)'', cls = ''border-emerald-200 bg-emerald-50 text-emerald-800''\<rparr>
      else if s = ''ALTERED_OR_BROKEN_PROVENANCE'' then
        \<lparr>label = ''Altered / Broken provenance'', cls = ''border-amber-200 bg-amber-50 text-amber-900''\<rparr>
      else if s = ''UNVERIFIABLE_NO_PROVENANCE'' then
        \<lparr>label = ''No provenance (unverifiable)'', cls = ''border-slate-200 bg-slate-100 text-slate-800''\<rparr>
      else
        \<lparr>label = or_else s em_dash, cls = ''border-slate-200 bg-slate-100 text-slate-800''\<rparr>)"

section \<open>Landing page: the quick-scan mapping\<close>

text \<open>
  Property access on a plain value, for a property name that no prototype defines
  (every name the client reads from a response is such a name): the entry of an object,
  \<^verbatim>\<open>undefined\<close> on everything else that is not \<^verbatim>\<open>null\<close> or \<^verbatim>\<open>undefined\<close>. On those two,
  \<^verbatim>\<open>v.k\<close> throws a TypeError and \<^verbatim>\<open>v?.k\<close> is \<^verbatim>\<open>undefined\<close>. \<^verbatim>\<open>a ?? b\<close> evaluates
  \<^verbatim>\<open>b\<close> only when \<^verbatim>\<open>a\<close> is \<^verbatim>\<open>null\<close> or \<^verbatim>\<open>undefined\<close>.
\<close>

fun nullish :: "jsval \<Rightarrow> bool" where
  "nullish Undefined = True"
| "nullish Null = True"
| "nullish v = False"

fun prop_of :: "jsval \<Rightarrow> string \<Rightarrow> jsval" where
  "prop_of (Obj kvs) k = (case map_of kvs k of None \<Rightarrow> Undefined | Some x \<Rightarrow> x)"
| "prop_of v k = Undefined"

definition get_prop :: "jsval \<Rightarrow> string \<Rightarrow> js_error + jsval" where
  "get_prop v k = (if nullish v then Inl TypeError else Inr (prop_of v k))"

definition opt_chain :: "jsval \<Rightarrow> string \<Rightarrow> jsval" where
  "opt_chain v k = (if nullish v then Undefined else prop_of v k)"

definition coalesce :: "js_error + jsval \<Rightarrow> js_error + jsval \<Rightarrow> js_error + jsval" where
  "coalesce a b = (case a of Inl e \<Rightarrow> Inl e | Inr v \<Rightarrow> if nullish v then b else Inr v)"

definition and_then :: "js_error + 'a \<Rightarrow> ('a \<Rightarrow> js_error + 'b) \<Rightarrow> js_error + 'b" where
  "and_then a f = (case a of Inl e \<Rightarrow> Inl e | Inr v \<Rightarrow> f v)"

definition get_nested :: "jsval \<Rightarrow> string \<Rightarrow> string \<Rightarrow> js_error + jsval" where
  \<comment> \<open>\<^verbatim>\<open>raw.k1?.k2\<close>\<close>
  "get_nested raw k1 k2 = and_then (get_prop raw k1) (\<lambda>p. Inr (opt_chain p k2))"

record js_file =
  file_name :: string
  file_size :: nat

record AnalysisResult =
  filename :: jsval
  media_type :: jsval
  sha256 :: jsval
  bytes :: jsval
  provenance_state :: jsval
  summary :: jsval
  ai_disclosure :: jsval
  transformations :: jsval
  findings :: jsval
  c2pa :: jsval
  metadata :: jsval
  ffprobe :: jsval

text \<open>
  The object literal of \<^verbatim>\<open>quickScan\<close> (\<^verbatim>\<open>raw\<close> is the parsed JSON body, \<^verbatim>\<open>file\<close> the
  selected \<^verbatim>\<open>File\<close> with its \<^verbatim>\<open>name\<close> and \<^verbatim>\<open>size\<close>), its fields evaluated in the order written:
  \<^verbatim>\<open>
  const data: AnalysisResult = {
    filename: raw.filename ?? file.name,
    media_type: raw.media_type ?? raw.mime_type ?? "",
    sha256: raw.sha256 ?? "",
    bytes: raw.bytes ?? raw.size ?? file.size,
    provenance_state: raw.provenance_state ?? raw.provenance?.state ?? "",
    summary: raw.summary ?? raw.provenance?.summary ?? raw.one_line_rationale ?? "",
    ai_disclosure: raw.ai_disclosure ?? raw.provenance?.ai_disclosure ?? raw.ai ?? undefined,
    transformations: raw.transformations ?? raw.provenance?.transformations ?? undefined,
    findings: raw.findings ?? raw.provenance?.findings ?? raw.flags ?? undefined,
    c2pa: raw.c2pa ?? raw.c2pa_summary ?? raw.provenance?.c2pa ?? raw.provenance?.c2pa_summary ?? undefined,
    metadata: raw.metadata ?? raw.provenance?.metadata ?? undefined,
    ffprobe: raw.ffprobe ?? raw.media?.ffprobe ?? raw.provenance?.ffprobe ?? undefined,
  };
  \<close>
\<close>

definition quickScan_data :: "jsval \<Rightarrow> js_file \<Rightarrow> js_error + AnalysisResult" where
  "quickScan_data raw f =
     and_then (coalesce (get_prop raw ''filename'') (Inr (Str (file_name f)))) (\<lambda>v1.
     and_then (coalesce (coalesce (get_prop raw ''media_type'') (get_prop raw ''mime_type''))
                 (Inr (Str ''''))) (\<lambda>v2.
     and_then (coalesce (get_prop raw ''sha256'') (Inr (Str ''''))) (\<lambda>v3.
     and_then (coalesce (coalesce (get_prop raw ''bytes'') (get_prop raw ''size''))
                 (Inr (Num (Finite (of_nat (file_size f)))))) (\<lambda>v4.
     and_then (coalesce (coalesce (get_prop raw ''provenance_state'')
                 (get_nested raw ''provenance'' ''state'')) (Inr (Str ''''))) (\<lambda>v5.
     and_then (coalesce (coalesce (coalesce (get_prop raw ''summary'')
                 (get_nested raw ''provenance'' ''summary''))
                 (get_prop raw ''one_line_rationale'')) (Inr (Str ''''))) (\<lambda>v6.
     and_then (coalesce (coalesce (coalesce (get_prop raw ''ai_disclosure'')
                 (get_nested raw ''provenance'' ''ai_disclosure''))
                 (get_prop raw ''ai'')) (Inr Undefined)) (\<lambda>v7.
     and_then (coalesce (coalesce (get_prop raw ''transformations'')
                 (get_nested raw ''provenance'' ''transformations'')) (Inr Undefined)) (\<lambda>v8.
     and_then (coalesce (coalesce (coalesce (get_prop raw ''findings'')
                 (get_nested raw ''provenance'' ''findings''))
                 (get_prop raw ''flags'')) (Inr Undefined)) (\<lambda>v9.
     and_then (coalesce (coalesce (coalesce (coalesce (get_prop raw ''c2pa'')
                 (get_prop raw ''c2pa_summary''))
                 (get_nested raw ''provenance'' ''c2pa''))
                 (get_nested raw ''provenance'' ''c2pa_summary'')) (Inr Undefined)) (\<lambda>v10.
     and_then (coalesce (coalesce (get_prop raw ''metadata'')
                 (get_nested raw ''provenance'' ''metadata'')) (Inr Undefined)) (\<lambda>v11.
     and_then (coalesce (coalesce (coalesce (get_prop raw ''ffprobe'')
                 (get_nested raw ''media'' ''ffprobe''))
                 (get_nested raw ''provenance'' ''ffprobe'')) (Inr Undefined)) (\<lambda>v12.
     Inr \<lparr>filename = v1, media_type = v2, sha256 = v3, bytes = v4,
          provenance_state = v5, summary = v6, ai_disclosure = v7,
          transformations = v8, findings = v9, c2pa = v10, metadata = v11,
          ffprobe = v12\<rparr>))))))))))))"

text \<open>
  What the mapping is compared with: the first alternative that is present (neither
  \<^verbatim>\<open>null\<close> nor \<^verbatim>\<open>undefined\<close>), or the default when none is; a flat key \<^verbatim>\<open>raw.k\<close> and a
  nested key \<^verbatim>\<open>raw.k1?.k2\<close> of a response that is not \<^verbatim>\<open>null\<close>.
\<close>

definition first_present :: "jsval list \<Rightarrow> jsval \<Rightarrow> jsval" where
  "first_present alts d = (case filter (\<lambda>v. \<not> nullish v) alts of [] \<Rightarrow> d | v # _ \<Rightarrow> v)"

definition flat :: "jsval \<Rightarrow> string \<Rightarrow> jsval" where
  "flat raw k = prop_of raw k"

definition nested :: "jsval \<Rightarrow> string \<Rightarrow> string \<Rightarrow> jsval" where
  "nested raw k1 k2 = opt_chain (prop_of raw k1) k2"

section \<open>Case pages: downloading a report\<close>

text \<open>
  Strings are lists of bytes, text in UTF-8. \<^verbatim>\<open>toLowerCase\<close> is only applied to a
  header value, whose characters are at most U+00FF: it lowers the ASCII letters and the
  letters U+00C0 to U+00DE but U+00D7 (in UTF-8 the byte C3 and a second byte from 80 to
  9E but 97, lowered by adding 20 hexadecimal), and leaves every other character of that
  range as it is. \<^verbatim>\<open>includes\<close> is the substring test. \<^verbatim>\<open>trim\<close> strips from both ends the
  white space and line terminators of ECMAScript: U+0009 to U+000D, U+0020, U+00A0,
  U+1680, U+2000 to U+200A, U+2028, U+2029, U+202F, U+205F, U+3000 and U+FEFF, each by
  its UTF-8 bytes.
\<close>

definition lower_char :: "char \<Rightarrow> char" where
  "lower_char c =
     (let n = (of_char c :: nat) in if 65 \<le> n \<and> n \<le> 90 then char_of (n + 32) else c)"

fun toLowerCase :: "string \<Rightarrow> string" where
  "toLowerCase [] = []"
| "toLowerCase [c] = [lower_char c]"
| "toLowerCase (c # d # cs) =
     (let m = (of_char d :: nat) in
      if (of_char c :: nat) = 195 \<and> 128 \<le> m \<and> m \<le> 158 \<and> m \<noteq> 151
      then c # char_of (m + 32) # toLowerCase cs
      else lower_char c # toLowerCase (d # cs))"

fun startsWith :: "string \<Rightarrow> string \<Rightarrow> bool" where
  "startsWith s [] = True"
| "startsWith [] (p # ps) = False"
| "startsWith (c # cs) (p # ps) = (c = p \<and> startsWith cs ps)"

fun str_includes :: "string \<Rightarrow> string \<Rightarrow> bool" where
  "str_includes [] p = (p = [])"
| "str_includes (c # cs) p = (startsWith (c # cs) p \<or> str_includes cs p)"

definition white_space :: "string list" where
  "white_space =
     [[CHR 0x09], [CHR 0x0A], [CHR 0x0B], [CHR 0x0C], [CHR 0x0D], [CHR 0x20],
      [CHR 0xC2, CHR 0xA0],
      [CHR 0xE1, CHR 0x9A, CHR 0x80],
      [CHR 0xE2, CHR 0x80, CHR 0x80], [CHR 0xE2, CHR 0x80, CHR 0x81],
      [CHR 0xE2, CHR 0x80, CHR 0x82], [CHR 0xE2, CHR 0x80, CHR 0x83],
      [CHR 0xE2, CHR 0x80, CHR 0x84], [CHR 0xE2, CHR 0x80, CHR 0x85],
      [CHR 0xE2, CHR 0x80, CHR 0x86], [CHR 0xE2, CHR 0x80, CHR 0x87],
      [CHR 0xE2, CHR 0x80, CHR 0x88], [CHR 0xE2, CHR 0x80, CHR 0x89],
      [CHR 0xE2, CHR 0x80, CHR 0x8A],
      [CHR 0xE2, CHR 0x80, CHR 0xA8], [CHR 0xE2, CHR 0x80, CHR 0xA9],
      [CHR 0xE2, CHR 0x80, CHR 0xAF],
      [CHR 0xE2, CHR 0x81, CHR 0x9F],
      [CHR 0xE3, CHR 0x80, CHR 0x80],
      [CHR 0xEF, CHR 0xBB, CHR 0xBF]]"

definition leading :: "string list \<Rightarrow> string \<Rightarrow> nat" where
  "leading ws s = (case find (startsWith s) ws of None \<Rightarrow> 0 | Some w \<Rightarrow> length w)"

function strip :: "string list \<Rightarrow> string \<Rightarrow> string" where
  "strip ws s =
     (if leading ws s = 0 \<or> s = [] then s else strip ws (drop (leading ws s) s))"
  by pat_completeness auto
termination
  by (relation "measure (\<lambda>(ws, s). length s)") auto

declare strip.simps [simp del]

definition trim :: "string \<Rightarrow> string" where
  "trim s = rev (strip (map rev white_space) (rev (strip white_space s)))"

text \<open>
  What the callers read of a \<^verbatim>\<open>Response\<close>: \<^verbatim>\<open>res.ok\<close>, the \<^verbatim>\<open>content-type\<close> header
  (\<open>None\<close> when \<^verbatim>\<open>headers.get\<close> gives \<^verbatim>\<open>null\<close>) and the body, read as text, as a blob or
  as JSON. \<^verbatim>\<open>apiFetch\<close> either rejects with an error (its message) or resolves with a
  response. Reading the body of a resolved response is taken to succeed; parsing it as
  JSON is a parameter \<open>json_parse\<close> (\<open>None\<close> when \<^verbatim>\<open>res.json()\<close> rejects), and so is
  \<^verbatim>\<open>JSON.stringify(v, null, 2)\<close>.
\<close>

record response =
  ok :: bool
  content_type :: "string option"
  body :: string

datatype 'a fetched = Rejected string | Resolved 'a

text \<open>
  A blob is the one \<^verbatim>\<open>res.blob()\<close> gives, or \<^verbatim>\<open>new Blob([text], { type })\<close>.
  \<^verbatim>\<open>downloadBlob(blob, filename)\<close> saves the blob under the file name; the page state
  keeps the list of what was saved, next to \<^verbatim>\<open>busy\<close> and \<^verbatim>\<open>err\<close>.
\<close>

datatype blob = ResponseBlob response | Blob string string

record download =
  dl_blob :: blob
  dl_name :: string

record ui =
  busy :: bool
  err :: "string option"
  downloads :: "download list"

definition downloadBlob :: "blob \<Rightarrow> string \<Rightarrow> ui \<Rightarrow> ui" where
  "downloadBlob b fname st = st\<lparr>downloads := downloads st @ [\<lparr>dl_blob = b, dl_name = fname\<rparr>]\<rparr>"

text \<open>
  The \<^verbatim>\<open>try\<close> block of \<^verbatim>\<open>generateReport\<close> (the case page with the case-level report):
  \<open>Inl\<close> the message of the error thrown, \<open>Inr\<close> the state when the block ends or returns.
  \<^verbatim>\<open>
  const res = await apiFetch(`/report`, { method: "POST", ... });
  if (!res.ok) {
    const t = await res.text();
    throw new Error(t || "Report generation failed");
  }
  const ct = (res.headers.get("content-type") || "").toLowerCase();
  if (ct.includes("application/pdf")) {
    const blob = await res.blob();
    downloadBlob(blob, `truthsig-report-${caseId}.pdf`);
    return;
  }
  if (ct.includes("application/json")) {
    const data = await res.json().catch(() => null);
    const md = data?.markdown;
    if (typeof md === "string" && md.trim().length > 0) {
      const blob = new Blob([md], { type: "text/markdown;charset=utf-8" });
      downloadBlob(blob, `truthsig-report-${caseId}.md`);
      setErr("Backend returned MARKDOWN (not PDF). Downloaded as .md. If you want PDF, backend must return application/pdf.");
      return;
    }
    const raw = JSON.stringify(data ?? {}, null, 2);
    const blob = new Blob([raw], { type: "application/json;charset=utf-8" });
    downloadBlob(blob, `truthsig-report-${caseId}.json`);
    setErr("Backend returned JSON (not PDF). Downloaded as .json.");
    return;
  }
  const raw = await res.text();
  const blob = new Blob([raw], { type: ct || "text/plain;charset=utf-8" });
  downloadBlob(blob, `truthsig-report-${caseId}.txt`);
  setErr(`Backend did not return a PDF. Downloaded as .txt (content-type: ${ct || "unknown"}).`);
  \<close>
\<close>

definition generateReport_try ::
  "(string \<Rightarrow> jsval option) \<Rightarrow> (jsval \<Rightarrow> string) \<Rightarrow> string \<Rightarrow> response fetched \<Rightarrow> ui
     \<Rightarrow> string + ui" where
  "generateReport_try json_parse json_stringify caseId outcome st =
     (case outcome of
        Rejected msg \<Rightarrow> Inl msg
      | Resolved res \<Rightarrow>
          if \<not> ok res then Inl (or_else (body res) ''Report generation failed'')
          else
            let ct = toLowerCase
                       (or_else (case content_type res of None \<Rightarrow> '''' | Some h \<Rightarrow> h) '''')
            in
            if str_includes ct ''application/pdf'' then
              Inr (downloadBlob (ResponseBlob res) (''truthsig-report-'' @ caseId @ ''.pdf'') st)
            else if str_includes ct ''application/json'' then
              (let data = (case json_parse (body res) of None \<Rightarrow> Null | Some v \<Rightarrow> v);
                   md = opt_chain data ''markdown''
               in
               if typeof md = ''string'' \<and> 0 < length (trim (case md of Str s \<Rightarrow> s | _ \<Rightarrow> ''''))
               then
                 Inr ((downloadBlob
                         (Blob (case md of Str s \<Rightarrow> s | _ \<Rightarrow> '''') ''text/markdown;charset=utf-8'')
                         (''truthsig-report-'' @ caseId @ ''.md'') st)
                       \<lparr>err := Some ''Backend returned MARKDOWN (not PDF). Downloaded as .md. If you want PDF, backend must return application/pdf.''\<rparr>)
               else
                 Inr ((downloadBlob
                         (Blob (json_stringify (if nullish data then Obj [] else data))
                            ''application/json;charset=utf-8'')
                         (''truthsig-report-'' @ caseId @ ''.json'') st)
                       \<lparr>err := Some ''Backend returned JSON (not PDF). Downloaded as .json.''\<rparr>))
            else
              Inr ((downloadBlob
                      (Blob (body res) (or_else ct ''text/plain;charset=utf-8''))
                      (''truthsig-report-'' @ caseId @ ''.txt'') st)
                    \<lparr>err := Some (''Backend did not return a PDF. Downloaded as .txt (content-type: ''
                                   @ or_else ct ''unknown'' @ '').'')\<rparr>))"

text \<open>
  \<^verbatim>\<open>
  async function generateReport() {
    if (!caseId) { setErr("Missing case id in URL."); return; }
    setBusy(true);
    setErr(null);
    try { ... }
    catch (e: any) { setErr(e?.message || "Report failed"); }
    finally { setBusy(false); }
  }
  \<close>
\<close>

definition generateReport ::
  "(string \<Rightarrow> jsval option) \<Rightarrow> (jsval \<Rightarrow> string) \<Rightarrow> string \<Rightarrow> response fetched \<Rightarrow> ui \<Rightarrow> ui" where
  "generateReport json_parse json_stringify caseId outcome st =
     (if caseId = '''' then st\<lparr>err := Some ''Missing case id in URL.''\<rparr>
      else
        let st1 = st\<lparr>busy := True, err := None\<rparr>;
            st2 = (case generateReport_try json_parse json_stringify caseId outcome st1 of
                     Inl msg \<Rightarrow> st1\<lparr>err := Some (or_else msg ''Report failed'')\<rparr>
                   | Inr st' \<Rightarrow> st')
        in st2\<lparr>busy := False\<rparr>)"

text \<open>The lowered content type, as the theorems below name it.\<close>

definition lowered_content_type :: "response \<Rightarrow> string" where
  "lowered_content_type res =
     toLowerCase (case content_type res of None \<Rightarrow> '''' | Some h \<Rightarrow> h)"

text \<open>
  The per-evidence report of the other case page; \<^verbatim>\<open>selectedEvidenceId\<close> is a string or
  \<^verbatim>\<open>null\<close>.
  \<^verbatim>\<open>
  async function generateEvidenceReport() {
    if (!caseId || !selectedEvidenceId) {
      setErr("Select evidence before creating a report.");
      return;
    }
    setBusy(true);
    setErr(null);
    try {
      const res = await apiFetch(`/cases/${caseId}/evidence/${selectedEvidenceId}/report`, { method: "POST" });
      if (!res.ok) {
        const t = await res.text();
        throw new Error(t || "Report generation failed");
      }
      const blob = await res.blob();
      downloadBlob(blob, `truthsig-evidence-${selectedEvidenceId}.pdf`);
    } catch (e: any) {
      setErr(e?.message || "Report failed");
    } finally {
      setBusy(false);
    }
  }
  \<close>
\<close>

definition render :: "string option \<Rightarrow> string" where
  \<comment> \<open>a string or \<^verbatim>\<open>null\<close> inside a template literal\<close>
  "render v = (case v of None \<Rightarrow> ''null'' | Some s \<Rightarrow> s)"

definition generateEvidenceReport_try :: "string \<Rightarrow> response fetched \<Rightarrow> ui \<Rightarrow> string + ui" where
  "generateEvidenceReport_try selectedEvidenceId outcome st =
     (case outcome of
        Rejected msg \<Rightarrow> Inl msg
      | Resolved res \<Rightarrow>
          if \<not> ok res then Inl (or_else (body res) ''Report generation failed'')
          else
            Inr (downloadBlob (ResponseBlob res)
                   (''truthsig-evidence-'' @ selectedEvidenceId @ ''.pdf'') st))"

definition generateEvidenceReport ::
  "string \<Rightarrow> string option \<Rightarrow> response fetched \<Rightarrow> ui \<Rightarrow> ui" where
  "generateEvidenceReport caseId selectedEvidenceId outcome st =
     (if caseId = '''' \<or> selectedEvidenceId = None \<or> selectedEvidenceId = Some ''''
      then st\<lparr>err := Some ''Select evidence before creating a report.''\<rparr>
      else
        let st1 = st\<lparr>busy := True, err := None\<rparr>;
            st2 = (case generateEvidenceReport_try (render selectedEvidenceId) outcome st1 of
                     Inl msg \<Rightarrow> st1\<lparr>err := Some (or_else msg ''Report failed'')\<rparr>
                   | Inr st' \<Rightarrow> st')
        in st2\<lparr>busy := False\<rparr>)"

section \<open>The custody ledger of the engine\<close>

text \<open>
  The engine behind the client (the FastAPI backend) is not among the sources; the
  client only calls it. Its parts below follow the specification.
\<close>

type_synonym byte = "8 word"

text \<open>
  Modelled from the spec: the stored custody event of section 3 and section 4.5 (the
  backend's event table is missing). The hashed content of an event is its event type,
  actor, creation time and application payload, each a byte string; the stored hashes are
  the payload hash, the predecessor's combined hash and the event's own combined hash.
\<close>

record 'h custody_event =
  event_id :: nat
  case_id :: nat
  event_type :: "byte list"
  actor :: "byte list"
  created_at :: "byte list"
  payload :: "byte list"
  payload_hash :: 'h
  prev_event_hash :: 'h
  combined_hash :: 'h

text \<open>
  Modelled from the spec: the hash \<open>H\<close> of section 4.5 (the backend's hash function is
  missing), in its two uses: over the hashed content of an event, and over a payload hash
  and a predecessor hash; and the fixed zero value that precedes the genesis event.
\<close>

record 'h hashing =
  H_payload :: "byte list \<times> byte list \<times> byte list \<times> byte list \<Rightarrow> 'h"
  H_combined :: "'h \<times> 'h \<Rightarrow> 'h"
  zero_hash :: 'h

definition hashed_content ::
  "'h custody_event \<Rightarrow> byte list \<times> byte list \<times> byte list \<times> byte list" where
  \<comment> \<open>Modelled from the spec: what \<open>payload_hash\<close> covers (section 4.5)\<close>
  "hashed_content e = (event_type e, actor e, created_at e, payload e)"

definition chain_head :: "'h hashing \<Rightarrow> 'h custody_event list \<Rightarrow> 'h" where
  \<comment> \<open>Modelled from the spec: the previous event's combined hash, zero before the genesis event\<close>
  "chain_head hs evs = (case evs of [] \<Rightarrow> zero_hash hs | _ \<Rightarrow> combined_hash (last evs))"

text \<open>
  Modelled from the spec: the append of section 4.5 (the backend's ledger is missing).
  ``Each append computes \<open>payload_hash = H(event_type, actor, created_at, application
  payload)\<close> and \<open>this.prev_event_hash = previous event's combined hash\<close>; the stored
  combined hash of an event is \<open>H(payload_hash, prev_event_hash)\<close>. Genesis event uses a
  fixed zero-value predecessor.''
\<close>

definition append_event ::
  "'h hashing \<Rightarrow> 'h custody_event list \<Rightarrow> nat \<Rightarrow> nat \<Rightarrow> byte list \<Rightarrow> byte list \<Rightarrow> byte list
     \<Rightarrow> byte list \<Rightarrow> 'h custody_event list" where
  "append_event hs evs eid cid etype act t pl =
     (let ph = H_payload hs (etype, act, t, pl);
          prev = chain_head hs evs
      in evs @
         [\<lparr>event_id = eid, case_id = cid, event_type = etype, actor = act, created_at = t,
           payload = pl, payload_hash = ph, prev_event_hash = prev,
           combined_hash = H_combined hs (ph, prev)\<rparr>])"

text \<open>
  Modelled from the spec: a chain is what appends build from the empty ledger; an input
  is the identifier and the hashed content of one event.
\<close>

record event_input =
  in_id :: nat
  in_case :: nat
  in_type :: "byte list"
  in_actor :: "byte list"
  in_time :: "byte list"
  in_payload :: "byte list"

definition build_chain :: "'h hashing \<Rightarrow> event_input list \<Rightarrow> 'h custody_event list" where
  "build_chain hs inputs =
     foldl (\<lambda>evs i. append_event hs evs (in_id i) (in_case i) (in_type i) (in_actor i)
                      (in_time i) (in_payload i))
       [] inputs"

text \<open>
  Modelled from the spec: the verification walk of section 4.5 (the backend's verifier is
  missing). ``A verification walk recomputes each combined hash in order and compares to
  the stored chain; any mismatch raises \<open>ChainIntegrityViolation\<close> and halts the walk at
  the first divergence, reporting its event id.'' The combined hash is recomputed from the
  event's stored content (its payload hash recomputed) and the combined hash of the
  event before it. \<open>ChainIntegrityViolation\<close> is the ledger's \<open>IntegrityError\<close> of
  section 7.
\<close>

datatype ledger_error = ChainIntegrityViolation nat

fun verify_from :: "'h hashing \<Rightarrow> 'h \<Rightarrow> 'h custody_event list \<Rightarrow> ledger_error + unit" where
  "verify_from hs prev [] = Inr ()"
| "verify_from hs prev (e # es) =
     (let c = H_combined hs (H_payload hs (hashed_content e), prev) in
      if c \<noteq> combined_hash e then Inl (ChainIntegrityViolation (event_id e))
      else verify_from hs c es)"

definition verify_chain :: "'h hashing \<Rightarrow> 'h custody_event list \<Rightarrow> ledger_error + unit" where
  "verify_chain hs evs = verify_from hs (zero_hash hs) evs"

text \<open>
  Modelled from the spec: the single-bit mutation of section 8, ``payload changed without
  updating the chain'': one bit of one byte of one of the four hashed fields of a stored
  event is flipped, and the stored hashes stay as they were.
\<close>

datatype hashed_field = EventType | Actor | CreatedAt | Payload

fun field_bytes :: "'h custody_event \<Rightarrow> hashed_field \<Rightarrow> byte list" where
  "field_bytes e EventType = event_type e"
| "field_bytes e Actor = actor e"
| "field_bytes e CreatedAt = created_at e"
| "field_bytes e Payload = payload e"

definition flip_bit_at :: "byte list \<Rightarrow> nat \<Rightarrow> nat \<Rightarrow> byte list" where
  "flip_bit_at bs k j = bs[k := flip_bit j (bs ! k)]"

fun mutate :: "'h custody_event \<Rightarrow> hashed_field \<Rightarrow> nat \<Rightarrow> nat \<Rightarrow> 'h custody_event" where
  "mutate e EventType k j = e\<lparr>event_type := flip_bit_at (event_type e) k j\<rparr>"
| "mutate e Actor k j = e\<lparr>actor := flip_bit_at (actor e) k j\<rparr>"
| "mutate e CreatedAt k j = e\<lparr>created_at := flip_bit_at (created_at e) k j\<rparr>"
| "mutate e Payload k j = e\<lparr>payload := flip_bit_at (payload e) k j\<rparr>"

text \<open>
  The hashing the theorems assume: free of collisions where the walk relies on it. The
  combined hash determines the payload hash under a given predecessor, and the two
  contents at hand do not collide.
\<close>

definition combine_collision_free :: "'h hashing \<Rightarrow> bool" where
  "combine_collision_free hs = (\<forall>a b p. H_combined hs (a, p) = H_combined hs (b, p) \<longrightarrow> a = b)"

text \<open>A toy hashing, free of collisions, for concrete chains.\<close>

definition toy_hashing :: "byte list list hashing" where
  "toy_hashing =
     \<lparr>H_payload = (\<lambda>(a, b, c, d). [a, b, c, d]),
      H_combined = (\<lambda>(x, y). x @ y),
      zero_hash = []\<rparr>"

text \<open>
  A well-linked chain after a given predecessor hash: every stored combined hash is the
  hash of the event's content hash and of the combined hash before it.
\<close>

fun linked :: "'h hashing \<Rightarrow> 'h \<Rightarrow> 'h custody_event list \<Rightarrow> bool" where
  "linked hs prev [] = True"
| "linked hs prev (e # es) =
     (H_combined hs (H_payload hs (hashed_content e), prev) = combined_hash e
      \<and> linked hs (combined_hash e) es)"

text \<open>A chain of three events of one case.\<close>

definition example_inputs :: "event_input list" where
  "example_inputs =
     [\<lparr>in_id = 1, in_case = 7, in_type = [1], in_actor = [2], in_time = [3], in_payload = [4, 5]\<rparr>,
      \<lparr>in_id = 2, in_case = 7, in_type = [6], in_actor = [2], in_time = [4], in_payload = [9]\<rparr>,
      \<lparr>in_id = 3, in_case = 7, in_type = [1], in_actor = [8], in_time = [5], in_payload = []\<rparr>]"

section \<open>The video analyzer of the engine\<close>

text \<open>
  Modelled from the spec: the result of one sampled frame, ``flagged-frame {index,
  score}'' of section 3 (the backend's analyzer is missing). The score is a scalar that is
  only compared; it is a rational here.
\<close>

record frame_result =
  frame_index :: nat
  anomaly_score :: rat

text \<open>
  Modelled from the spec: the configuration of the video analyzer in section 4.3, the
  absolute threshold and the maximum reported count.
\<close>

record video_config =
  abs_threshold :: rat
  max_reported :: nat

text \<open>
  Modelled from the spec: the flagging rule of section 4.3: a frame is flagged ``when its
  anomaly score exceeds an absolute threshold OR deviates sharply from a rolling baseline
  computed over neighboring sampled frames''. The baseline test is a parameter
  \<open>deviates\<close>, given the sampled frames in index order and the frame.
\<close>

definition is_flagged ::
  "video_config \<Rightarrow> (frame_result list \<Rightarrow> frame_result \<Rightarrow> bool) \<Rightarrow> frame_result list
     \<Rightarrow> frame_result \<Rightarrow> bool" where
  "is_flagged cfg deviates sampled r =
     (abs_threshold cfg < anomaly_score r \<or> deviates sampled r)"

text \<open>
  Modelled from the spec: the aggregation of section 4.3. The per-frame results arrive in
  completion order; ``the final flagged-frame list must be produced in ascending
  frame-index order regardless of completion order, and is capped at a maximum reported
  count''.
\<close>

definition flagged_frames ::
  "video_config \<Rightarrow> (frame_result list \<Rightarrow> frame_result \<Rightarrow> bool) \<Rightarrow> frame_result list
     \<Rightarrow> frame_result list" where
  "flagged_frames cfg deviates completed =
     (let sampled = sort_key frame_index completed in
      take (max_reported cfg) (filter (is_flagged cfg deviates sampled) sampled))"

text \<open>
  Thirty sampled frames, completed in descending order of index, of which frames 7, 14
  and 22 score above the threshold of the configuration; no baseline test.
\<close>

definition thirty_frames :: "frame_result list" where
  "thirty_frames =
     map (\<lambda>i. \<lparr>frame_index = i, anomaly_score = (if i \<in> {7, 14, 22} then 9 / 10 else 1 / 10)\<rparr>)
       (rev [0..<30])"

definition example_config :: video_config where
  "example_config = \<lparr>abs_threshold = 1 / 2, max_reported = 5\<rparr>"

definition no_baseline :: "frame_result list \<Rightarrow> frame_result \<Rightarrow> bool" where
  "no_baseline sampled r = False"

text \<open>
  The indices of the frames whose score exceeds the absolute threshold, ascending; a
  configuration that reports at most two frames; and two instances of the baseline test:
  one flags a frame whose score is above three times the mean score of the sampled
  frames, the other a frame whose score differs by more than one half from the score of
  a sampled frame next to it.
\<close>

definition exceeding :: "video_config \<Rightarrow> frame_result list \<Rightarrow> nat list" where
  "exceeding cfg completed =
     map frame_index
       (filter (\<lambda>r. abs_threshold cfg < anomaly_score r) (sort_key frame_index completed))"

definition two_frame_cap :: video_config where
  "two_frame_cap = \<lparr>abs_threshold = 1 / 2, max_reported = 2\<rparr>"

definition mean_baseline :: "frame_result list \<Rightarrow> frame_result \<Rightarrow> bool" where
  "mean_baseline sampled r =
     (3 * sum_list (map anomaly_score sampled) < of_nat (length sampled) * anomaly_score r)"

definition neighbour_baseline :: "frame_result list \<Rightarrow> frame_result \<Rightarrow> bool" where
  "neighbour_baseline sampled r =
     (\<exists>p \<in> set sampled.
        (frame_index p + 1 = frame_index r \<or> frame_index r + 1 = frame_index p)
        \<and> 1 / 2 < \<bar>anomaly_score r - anomaly_score p\<bar>)"

section \<open>The content store of the engine\<close>

text \<open>
  Modelled from the spec: the Evidence record of section 3 (the backend's evidence table
  is missing): identifier, case, file name, digest, media kind and analysis status.
\<close>

datatype media_kind = Image | Video

datatype analysis_status = PENDING | RUNNING | DONE | FAILED

record evidence =
  evidence_id :: nat
  ev_case_id :: nat
  ev_filename :: string
  digest :: string
  media_kind :: media_kind
  analysis_status :: analysis_status

text \<open>
  Modelled from the spec: the persisted state of section 6 (the backend's database is
  missing): the evidence table, the blob store keyed by digest, one custody ledger per
  case, the queue of analysis jobs keyed by evidence id, and the next free identifiers.
\<close>

record 'h store =
  evidence_table :: "evidence list"
  blobs :: "string \<rightharpoonup> byte list"
  ledgers :: "nat \<Rightarrow> 'h custody_event list"
  job_queue :: "nat list"
  next_evidence_id :: nat
  next_event_id :: nat

text \<open>
  Modelled from the spec: the digest over the full content and the sniffing of the media
  kind from the content (section 4.1), both missing with the backend and taken as
  parameters; \<open>None\<close> when no supported container is recognized.
\<close>

record content_rules =
  digest_of :: "byte list \<Rightarrow> string"
  sniff :: "byte list \<Rightarrow> media_kind option"

datatype input_error = UnsupportedMediaKind

definition bytes_of :: "string \<Rightarrow> byte list" where
  "bytes_of s = map (\<lambda>c. of_nat (of_char c)) s"

text \<open>
  Modelled from the spec: the upload of section 4.1 (the backend's handler of
  \<^verbatim>\<open>POST /cases/{case_id}/evidence\<close> is missing; the client only calls it). ``Computes a
  cryptographic digest over the full content. Sniffs media kind from content; fails with
  \<open>UnsupportedMediaKind\<close> if no supported container is recognized. If the digest already
  exists for that case, returns the existing Evidence record unchanged and records a
  "duplicate-detected" custody event instead of creating new storage. Otherwise persists
  the blob, creates a PENDING Evidence record, and enqueues one analysis job keyed by
  evidence id.'' The application payload of the duplicate-detected event is taken to be
  the digest.
\<close>

definition upload ::
  "content_rules \<Rightarrow> 'h hashing \<Rightarrow> 'h store \<Rightarrow> nat \<Rightarrow> string \<Rightarrow> byte list \<Rightarrow> byte list \<Rightarrow> byte list
     \<Rightarrow> input_error + evidence \<times> 'h store" where
  "upload rules hs st cid fname content act now =
     (let d = digest_of rules content in
      case sniff rules content of
        None \<Rightarrow> Inl UnsupportedMediaKind
      | Some kind \<Rightarrow>
          (case find (\<lambda>e. ev_case_id e = cid \<and> digest e = d) (evidence_table st) of
             Some e \<Rightarrow>
               Inr (e,
                    st\<lparr>ledgers := (ledgers st)
                          (cid := append_event hs (ledgers st cid) (next_event_id st) cid
                                    (bytes_of ''duplicate-detected'') act now (bytes_of d)),
                       next_event_id := next_event_id st + 1\<rparr>)
           | None \<Rightarrow>
               (let e = \<lparr>evidence_id = next_evidence_id st, ev_case_id = cid,
                          ev_filename = fname, digest = d, media_kind = kind,
                          analysis_status = PENDING\<rparr>
                in Inr (e,
                        st\<lparr>evidence_table := evidence_table st @ [e],
                           blobs := (blobs st)(d \<mapsto> content),
                           job_queue := job_queue st @ [evidence_id e],
                           next_evidence_id := next_evidence_id st + 1\<rparr>))))"

text \<open>A toy digest and a toy sniffer (JPEG by its first two bytes), and the empty store.\<close>

definition toy_rules :: content_rules where
  "toy_rules =
     \<lparr>digest_of = (\<lambda>bs. map (\<lambda>b. char_of (unat b)) bs),
      sniff = (\<lambda>bs. if take 2 bs = [255, 216] then Some Image else None)\<rparr>"

definition empty_store :: "byte list list store" where
  "empty_store =
     \<lparr>evidence_table = [], blobs = Map.empty, ledgers = (\<lambda>c. []), job_queue = [],
      next_evidence_id = 1, next_event_id = 1\<rparr>"

text \<open>The record and the store after a first upload of three bytes to case 7.\<close>

definition first_evidence :: evidence where
  "first_evidence =
     \<lparr>evidence_id = 1, ev_case_id = 7, ev_filename = ''a.jpg'',
      digest = digest_of toy_rules [255, 216, 1], media_kind = Image,
      analysis_status = PENDING\<rparr>"

definition store_after_first :: "byte list list store" where
  "store_after_first =
     \<lparr>evidence_table = [first_evidence],
      blobs = [digest_of toy_rules [255, 216, 1] \<mapsto> [255, 216, 1]],
      ledgers = (\<lambda>c. []), job_queue = [1], next_evidence_id = 2, next_event_id = 1\<rparr>"

text \<open>The record and the store after a second upload, of other bytes, to the same case.\<close>

definition second_evidence :: evidence where
  "second_evidence =
     \<lparr>evidence_id = 2, ev_case_id = 7, ev_filename = ''b.jpg'',
      digest = digest_of toy_rules [255, 216, 2], media_kind = Image,
      analysis_status = PENDING\<rparr>"

definition store_after_second :: "byte list list store" where
  "store_after_second =
     \<lparr>evidence_table = [first_evidence, second_evidence],
      blobs = [digest_of toy_rules [255, 216, 1] \<mapsto> [255, 216, 1],
               digest_of toy_rules [255, 216, 2] \<mapsto> [255, 216, 2]],
      ledgers = (\<lambda>c. []), job_queue = [1, 2], next_evidence_id = 3, next_event_id = 1\<rparr>"

section \<open>Properties of \<^verbatim>\<open>asStringParam\<close>\<close>

text \<open>
  Claim C9. \<^verbatim>\<open>asStringParam\<close> is total, never throws and always returns a string: a
  string input is returned unchanged, an array whose first element is a string gives
  that element, and every other input (null, undefined, booleans, numbers, objects,
  the empty array, an array whose first element is not a string) gives the empty string.
\<close>

theorem asStringParam_total:
  "asStringParam v =
     Inr (Str (case v of
                 Str s \<Rightarrow> s
               | Arr (Str s # rest) \<Rightarrow> s
               | _ \<Rightarrow> ''''))"
proof (cases v)
  case (Arr xs)
  show ?thesis
  proof (cases xs)
    case Nil
    with Arr show ?thesis by (simp add: asStringParam_def)
  next
    case (Cons x rest)
    with Arr show ?thesis by (cases x) (simp_all add: asStringParam_def)
  qed
qed (simp_all add: asStringParam_def)

lemma asStringParam_examples:
  "asStringParam (Str ''c1'') = Inr (Str ''c1'')"
  "asStringParam (Arr [Str ''c1'', Str ''c2'']) = Inr (Str ''c1'')"
  "asStringParam (Arr [Num (Finite 1), Str ''c2'']) = Inr (Str '''')"
  "asStringParam (Arr []) = Inr (Str '''')"
  "asStringParam Undefined = Inr (Str '''')"
  "asStringParam (Obj [(''0'', Str ''c1'')]) = Inr (Str '''')"
  by (simp_all add: asStringParam_def)

section \<open>Properties of \<^verbatim>\<open>prettyBytes\<close>\<close>

lemma prettyBytes_loop_step:
  "num_ge x 1024 \<Longrightarrow> i < length units - 1 \<Longrightarrow>
     prettyBytes_loop x i = prettyBytes_loop (num_div x 1024) (i + 1)"
  by (subst prettyBytes_loop.simps) simp

lemma prettyBytes_loop_stop:
  "\<not> (num_ge x 1024 \<and> i < length units - 1) \<Longrightarrow> prettyBytes_loop x i = (x, i)"
  by (subst prettyBytes_loop.simps) (rule if_not_P)

lemma prettyBytes_loop_steps:
  "prettyBytes_loop x i = (y, j) \<Longrightarrow> i \<le> 3 \<Longrightarrow>
     i \<le> j \<and> j \<le> 3 \<and> y = ((\<lambda>z. num_div z 1024) ^^ (j - i)) x"
proof (induction x i rule: prettyBytes_loop.induct)
  case (1 x i)
  show ?case
  proof (cases "num_ge x 1024 \<and> i < length units - 1")
    case True
    then have i3: "i < 3" by (simp add: units_def)
    from True "1.prems"(1) have run: "prettyBytes_loop (num_div x 1024) (i + 1) = (y, j)"
      by (simp add: prettyBytes_loop_step)
    from "1.IH" [OF True run] i3
    have ih: "i + 1 \<le> j" "j \<le> 3" "y = ((\<lambda>z. num_div z 1024) ^^ (j - (i + 1))) (num_div x 1024)"
      by simp_all
    have "j - i = Suc (j - (i + 1))" using ih(1) by simp
    then have "((\<lambda>z. num_div z 1024) ^^ (j - i)) x
        = ((\<lambda>z. num_div z 1024) ^^ (j - (i + 1))) (num_div x 1024)"
      by (simp only: funpow_Suc_right o_apply)
    with ih show ?thesis by simp
  next
    case False
    then have "prettyBytes_loop x i = (x, i)" by (rule prettyBytes_loop_stop)
    with "1.prems" show ?thesis by simp
  qed
qed

lemma units_nth: "k \<le> 3 \<Longrightarrow> k < length units \<and> units ! k \<in> {''B'', ''KB'', ''MB'', ''GB''}"
proof -
  assume "k \<le> 3"
  then consider "k = 0" | "k = 1" | "k = 2" | "k = 3" by linarith
  then show ?thesis by cases (simp_all add: units_def)
qed

text \<open>
  Claim C10. \<^verbatim>\<open>prettyBytes\<close> returns on every number (the loop is a total function: the
  measure \<open>length units - 1 - i\<close> decreases). The loop ends after \<open>k \<le> 3\<close> divisions by
  1024, with the index \<open>k\<close>; the unit shown is one of B, KB, MB, GB and the value shown
  is the input divided by 1024 \<open>k\<close> times; NaN (falsy and not \<^verbatim>\<open>=== 0\<close>) gives the empty
  string, and no other number does by this test.
\<close>

theorem prettyBytes_bounded:
  "\<exists>k. k \<le> 3
     \<and> prettyBytes_loop n 0 = (((\<lambda>z. num_div z 1024) ^^ k) n, k)
     \<and> units ! k \<in> {''B'', ''KB'', ''MB'', ''GB''}
     \<and> prettyBytes toFixed n =
         (if n = NaN then ''''
          else toFixed (((\<lambda>z. num_div z 1024) ^^ k) n) (if k = 0 then 0 else 1)
                 @ '' '' @ units ! k)"
proof -
  obtain y j where run: "prettyBytes_loop n 0 = (y, j)" by (cases "prettyBytes_loop n 0")
  from prettyBytes_loop_steps [OF run]
  have j: "j \<le> 3" and y: "y = ((\<lambda>z. num_div z 1024) ^^ j) n" by simp_all
  have nan: "(num_falsy n \<and> n \<noteq> Finite 0) = (n = NaN)" by (cases n) auto
  from units_nth [OF j] have u: "j < length units" "units ! j \<in> {''B'', ''KB'', ''MB'', ''GB''}"
    by simp_all
  have "prettyBytes toFixed n =
         (if n = NaN then ''''
          else toFixed y (if j = 0 then 0 else 1) @ '' '' @ units ! j)"
    unfolding prettyBytes_def nan run using u(1) by simp
  with run j y u(2) show ?thesis by blast
qed

lemma prettyBytes_examples:
  "prettyBytes tf (Finite 5) = tf (Finite 5) 0 @ '' B''"
  "prettyBytes tf (Finite 1536) = tf (Finite (3 / 2)) 1 @ '' KB''"
  "prettyBytes tf (Finite (5 * 1024 * 1024 * 1024 * 1024)) = tf (Finite 5120) 1 @ '' GB''"
  "prettyBytes tf PosInf = tf PosInf 1 @ '' GB''"
  "prettyBytes tf (Finite 0) = tf (Finite 0) 0 @ '' B''"
  "prettyBytes tf (Finite (- 2048)) = tf (Finite (- 2048)) 0 @ '' B''"
  "prettyBytes tf NaN = ''''"
  by (simp_all add: prettyBytes_def units_def prettyBytes_loop.simps)

section \<open>Properties of the state badge\<close>

lemma provenance_state_UNIV:
  "(UNIV :: provenance_state set) =
     {VERIFIED_ORIGINAL, ALTERED_OR_BROKEN_PROVENANCE, UNVERIFIABLE_NO_PROVENANCE}"
proof -
  have "p \<in> {VERIFIED_ORIGINAL, ALTERED_OR_BROKEN_PROVENANCE, UNVERIFIABLE_NO_PROVENANCE}" for p
    by (cases p) simp_all
  then show ?thesis by blast
qed

lemma range_wire_name:
  "range wire_name =
     {''VERIFIED_ORIGINAL'', ''ALTERED_OR_BROKEN_PROVENANCE'', ''UNVERIFIABLE_NO_PROVENANCE''}"
  by (simp add: provenance_state_UNIV)

lemma stateBadge_known:
  "stateBadge (Some (wire_name VERIFIED_ORIGINAL)) =
     \<lparr>label = ''Verified (C2PA)'', cls = ''border-emerald-200 bg-emerald-50 text-emerald-800''\<rparr>"
  "stateBadge (Some (wire_name ALTERED_OR_BROKEN_PROVENANCE)) =
     \<lparr>label = ''Altered / Broken provenance'', cls = ''border-amber-200 bg-amber-50 text-amber-900''\<rparr>"
  "stateBadge (Some (wire_name UNVERIFIABLE_NO_PROVENANCE)) =
     \<lparr>label = ''No provenance (unverifiable)'', cls = ''border-slate-200 bg-slate-100 text-slate-800''\<rparr>"
  by (simp_all add: stateBadge_def or_else_def)

lemma stateBadge_fallback:
  assumes "s \<notin> range wire_name"
  shows "stateBadge (Some s) =
     \<lparr>label = or_else s em_dash, cls = ''border-slate-200 bg-slate-100 text-slate-800''\<rparr>"
proof -
  from assms have "s \<noteq> ''VERIFIED_ORIGINAL''" "s \<noteq> ''ALTERED_OR_BROKEN_PROVENANCE''"
    "s \<noteq> ''UNVERIFIABLE_NO_PROVENANCE''"
    unfolding range_wire_name by blast+
  then show ?thesis by (simp add: stateBadge_def or_else_def Let_def)
qed

text \<open>
  Claim C7. The provenance state is an enumeration of exactly three values with three
  different wire names. The badge maps the three to their own label and styling, the
  three labels and the three stylings pairwise different; every other string falls to
  one generic badge (the string itself as label, an em dash for the empty string, slate
  styling), and so does the absence of a result.
\<close>

theorem stateBadge_mapping:
  "card (UNIV :: provenance_state set) = 3
   \<and> inj wire_name
   \<and> stateBadge (Some (wire_name VERIFIED_ORIGINAL)) =
       \<lparr>label = ''Verified (C2PA)'', cls = ''border-emerald-200 bg-emerald-50 text-emerald-800''\<rparr>
   \<and> stateBadge (Some (wire_name ALTERED_OR_BROKEN_PROVENANCE)) =
       \<lparr>label = ''Altered / Broken provenance'', cls = ''border-amber-200 bg-amber-50 text-amber-900''\<rparr>
   \<and> stateBadge (Some (wire_name UNVERIFIABLE_NO_PROVENANCE)) =
       \<lparr>label = ''No provenance (unverifiable)'', cls = ''border-slate-200 bg-slate-100 text-slate-800''\<rparr>
   \<and> inj (\<lambda>p. label (stateBadge (Some (wire_name p))))
   \<and> inj (\<lambda>p. cls (stateBadge (Some (wire_name p))))
   \<and> (\<forall>s. s \<notin> range wire_name \<longrightarrow>
         stateBadge (Some s) =
           \<lparr>label = (if s = '''' then em_dash else s),
            cls = ''border-slate-200 bg-slate-100 text-slate-800''\<rparr>)
   \<and> stateBadge None = \<lparr>label = em_dash, cls = ''border-slate-200 bg-slate-100 text-slate-800''\<rparr>"
proof -
  have c: "card (UNIV :: provenance_state set) = 3"
    by (simp add: provenance_state_UNIV)
  have i1: "inj wire_name"
  proof (rule injI)
    fix p q assume "wire_name p = wire_name q"
    then show "p = q" by (cases p; cases q) simp_all
  qed
  have i2: "inj (\<lambda>p. label (stateBadge (Some (wire_name p))))"
  proof (rule injI)
    fix p q
    assume "label (stateBadge (Some (wire_name p))) = label (stateBadge (Some (wire_name q)))"
    then show "p = q" by (cases p; cases q) (simp_all only: stateBadge_known, simp_all)
  qed
  have i3: "inj (\<lambda>p. cls (stateBadge (Some (wire_name p))))"
  proof (rule injI)
    fix p q
    assume "cls (stateBadge (Some (wire_name p))) = cls (stateBadge (Some (wire_name q)))"
    then show "p = q" by (cases p; cases q) (simp_all only: stateBadge_known, simp_all)
  qed
  have f: "\<forall>s. s \<notin> range wire_name \<longrightarrow>
         stateBadge (Some s) =
           \<lparr>label = (if s = '''' then em_dash else s),
            cls = ''border-slate-200 bg-slate-100 text-slate-800''\<rparr>"
    using stateBadge_fallback by (simp add: or_else_def)
  have n: "stateBadge None = \<lparr>label = em_dash, cls = ''border-slate-200 bg-slate-100 text-slate-800''\<rparr>"
    by (simp add: stateBadge_def or_else_def)
  from c i1 stateBadge_known i2 i3 f n show ?thesis by (intro conjI)
qed

theorem stateBadge_mapping_witness:
  "''PENDING'' \<notin> range wire_name
   \<and> stateBadge (Some ''PENDING'') =
       \<lparr>label = ''PENDING'', cls = ''border-slate-200 bg-slate-100 text-slate-800''\<rparr>"
proof -
  have h: "''PENDING'' \<notin> range wire_name" by (simp add: range_wire_name)
  from stateBadge_mapping have "\<forall>s. s \<notin> range wire_name \<longrightarrow>
         stateBadge (Some s) =
           \<lparr>label = (if s = '''' then em_dash else s),
            cls = ''border-slate-200 bg-slate-100 text-slate-800''\<rparr>" by blast
  with h show ?thesis by simp
qed


section \<open>Properties of the quick-scan mapping\<close>

lemma coalesce_first_present:
  "coalesce (Inr a) (Inr b) = Inr (first_present [a] b)"
  by (simp add: coalesce_def first_present_def)


lemma first_present_Cons:
  "first_present (a # as) d = (if nullish a then first_present as d else a)"
  by (simp add: first_present_def)

lemma first_present_Nil: "first_present [] d = d"
  by (simp add: first_present_def)

lemma first_present_nest:
  "first_present [first_present as b] d = first_present (as @ [b]) d"
proof (induction as)
  case Nil
  show ?case by (simp add: first_present_Cons first_present_Nil)
next
  case (Cons a as)
  show ?case
  proof (cases "nullish a")
    case True
    with Cons show ?thesis by (simp add: first_present_Cons)
  next
    case False
    then show ?thesis by (simp add: first_present_Cons)
  qed
qed

lemma get_prop_flat: "\<not> nullish raw \<Longrightarrow> get_prop raw k = Inr (flat raw k)"
  by (simp add: get_prop_def flat_def)

lemma get_nested_nested: "\<not> nullish raw \<Longrightarrow> get_nested raw k1 k2 = Inr (nested raw k1 k2)"
  by (simp add: get_nested_def get_prop_def nested_def and_then_def)

lemma and_then_Inr: "and_then (Inr v) f = f v"
  by (simp add: and_then_def)

lemma quickScan_data_null: "nullish raw \<Longrightarrow> quickScan_data raw f = Inl TypeError"
  by (simp add: quickScan_data_def get_prop_def coalesce_def and_then_def)

text \<open>
  Claim C8. For every parsed response the mapping of \<^verbatim>\<open>quickScan\<close> takes each field of
  the \<^verbatim>\<open>AnalysisResult\<close> from the first present of its alternative flat or nested keys,
  in the order written, and from the default when none is present; nothing else of the
  response is checked. (A response that is \<^verbatim>\<open>null\<close> maps to nothing: reading its first key
  throws.)
\<close>

theorem quickScan_data_first_present:
  "quickScan_data raw f =
     (if nullish raw then Inl TypeError
      else Inr
        \<lparr>filename = first_present [flat raw ''filename''] (Str (file_name f)),
         media_type = first_present [flat raw ''media_type'', flat raw ''mime_type''] (Str ''''),
         sha256 = first_present [flat raw ''sha256''] (Str ''''),
         bytes = first_present [flat raw ''bytes'', flat raw ''size'']
                   (Num (Finite (of_nat (file_size f)))),
         provenance_state =
           first_present [flat raw ''provenance_state'', nested raw ''provenance'' ''state'']
             (Str ''''),
         summary =
           first_present [flat raw ''summary'', nested raw ''provenance'' ''summary'',
                          flat raw ''one_line_rationale''] (Str ''''),
         ai_disclosure =
           first_present [flat raw ''ai_disclosure'', nested raw ''provenance'' ''ai_disclosure'',
                          flat raw ''ai''] Undefined,
         transformations =
           first_present [flat raw ''transformations'',
                          nested raw ''provenance'' ''transformations''] Undefined,
         findings =
           first_present [flat raw ''findings'', nested raw ''provenance'' ''findings'',
                          flat raw ''flags''] Undefined,
         c2pa =
           first_present [flat raw ''c2pa'', flat raw ''c2pa_summary'',
                          nested raw ''provenance'' ''c2pa'',
                          nested raw ''provenance'' ''c2pa_summary''] Undefined,
         metadata =
           first_present [flat raw ''metadata'', nested raw ''provenance'' ''metadata'']
             Undefined,
         ffprobe =
           first_present [flat raw ''ffprobe'', nested raw ''media'' ''ffprobe'',
                          nested raw ''provenance'' ''ffprobe''] Undefined\<rparr>)"
proof (cases "nullish raw")
  case True
  then show ?thesis by (simp add: quickScan_data_null)
next
  case False
  note flat_key = get_prop_flat [OF False]
  note nested_key = get_nested_nested [OF False]
  from False show ?thesis
    unfolding quickScan_data_def
    by (simp only: flat_key nested_key coalesce_first_present first_present_nest
          append.simps and_then_Inr if_False)
qed


text \<open>A flat and a nested response map to the same result.\<close>

lemma quickScan_data_flat_nested:
  "quickScan_data (Obj [(''provenance_state'', Str ''VERIFIED_ORIGINAL'')]) f =
   quickScan_data (Obj [(''provenance'', Obj [(''state'', Str ''VERIFIED_ORIGINAL'')])]) f"
  by (simp add: quickScan_data_def get_prop_def get_nested_def and_then_def coalesce_def
        opt_chain_def)

section \<open>Properties of the report callers\<close>

lemma trim_examples:
  "trim ''# Report'' = ''# Report''"
  "trim ('' '' @ [CHR 0xC2, CHR 0xA0] @ ''a b'' @ [CHR 0xE2, CHR 0x80, CHR 0xA8, CHR 0x0A]) = ''a b''"
  "trim [CHR 0xC2, CHR 0xA0] = ''''"
  by (simp_all add: trim_def strip.simps leading_def white_space_def)

lemma toLowerCase_examples:
  "toLowerCase ''Application/PDF; Charset=UTF-8'' = ''application/pdf; charset=utf-8''"
  "toLowerCase [CHR 0xC3, CHR 0x80, CHR ''A'', CHR 0xC3, CHR 0x97]
     = [CHR 0xC3, CHR 0xA0, CHR ''a'', CHR 0xC3, CHR 0x97]"
  by code_simp+

text \<open>
  The case-level caller branches on the content type: a PDF is saved as \<^verbatim>\<open>.pdf\<close>, JSON with
  a non-blank \<^verbatim>\<open>markdown\<close> string as that text under \<^verbatim>\<open>.md\<close>, any other content type as
  \<^verbatim>\<open>.txt\<close>.
\<close>

lemma generateReport_pdf:
  assumes "caseId \<noteq> ''''" "ok res" "str_includes (lowered_content_type res) ''application/pdf''"
  shows "generateReport jp js caseId (Resolved res) st =
           st\<lparr>busy := False, err := None,
              downloads := downloads st @
                [\<lparr>dl_blob = ResponseBlob res, dl_name = ''truthsig-report-'' @ caseId @ ''.pdf''\<rparr>]\<rparr>"
  using assms
  by (simp add: generateReport_def generateReport_try_def downloadBlob_def lowered_content_type_def
        or_else_def Let_def)

lemma generateReport_markdown:
  assumes "caseId \<noteq> ''''" "ok res" "\<not> str_includes (lowered_content_type res) ''application/pdf''"
    "str_includes (lowered_content_type res) ''application/json''"
    "jp (body res) = Some data" "opt_chain data ''markdown'' = Str md" "trim md \<noteq> ''''"
  shows "generateReport jp js caseId (Resolved res) st =
           st\<lparr>busy := False,
              err := Some ''Backend returned MARKDOWN (not PDF). Downloaded as .md. If you want PDF, backend must return application/pdf.'',
              downloads := downloads st @
                [\<lparr>dl_blob = Blob md ''text/markdown;charset=utf-8'',
                  dl_name = ''truthsig-report-'' @ caseId @ ''.md''\<rparr>]\<rparr>"
  using assms
  by (simp add: generateReport_def generateReport_try_def downloadBlob_def lowered_content_type_def
        or_else_def Let_def)

lemma generateReport_json_other:
  assumes "caseId \<noteq> ''''" "ok res" "\<not> str_includes (lowered_content_type res) ''application/pdf''"
    "str_includes (lowered_content_type res) ''application/json''"
    "data = (case jp (body res) of None \<Rightarrow> Null | Some v \<Rightarrow> v)"
    "\<forall>md. opt_chain data ''markdown'' = Str md \<longrightarrow> trim md = ''''"
  shows "generateReport jp js caseId (Resolved res) st =
           st\<lparr>busy := False,
              err := Some ''Backend returned JSON (not PDF). Downloaded as .json.'',
              downloads := downloads st @
                [\<lparr>dl_blob = Blob (js (if nullish data then Obj [] else data))
                              ''application/json;charset=utf-8'',
                  dl_name = ''truthsig-report-'' @ caseId @ ''.json''\<rparr>]\<rparr>"
proof (cases "opt_chain data ''markdown''")
  case (Str md)
  with assms show ?thesis
    by (simp add: generateReport_def generateReport_try_def downloadBlob_def
          lowered_content_type_def or_else_def Let_def)
qed (use assms in \<open>simp_all add: generateReport_def generateReport_try_def downloadBlob_def
          lowered_content_type_def or_else_def Let_def\<close>)

lemma generateReport_other:
  assumes "caseId \<noteq> ''''" "ok res" "\<not> str_includes (lowered_content_type res) ''application/pdf''"
    "\<not> str_includes (lowered_content_type res) ''application/json''"
  shows "generateReport jp js caseId (Resolved res) st =
           st\<lparr>busy := False,
              err := Some (''Backend did not return a PDF. Downloaded as .txt (content-type: ''
                            @ or_else (lowered_content_type res) ''unknown'' @ '').''),
              downloads := downloads st @
                [\<lparr>dl_blob = Blob (body res) (or_else (lowered_content_type res) ''text/plain;charset=utf-8''),
                  dl_name = ''truthsig-report-'' @ caseId @ ''.txt''\<rparr>]\<rparr>"
  using assms
  by (simp add: generateReport_def generateReport_try_def downloadBlob_def lowered_content_type_def
        or_else_def Let_def)

text \<open>
  The per-evidence caller never reads the content type: every successful response is
  saved under a name ending in \<^verbatim>\<open>.pdf\<close>.
\<close>

lemma generateEvidenceReport_always_pdf:
  assumes "caseId \<noteq> ''''" "eid \<noteq> ''''" "ok res"
  shows "generateEvidenceReport caseId (Some eid) (Resolved res) st =
           st\<lparr>busy := False, err := None,
              downloads := downloads st @
                [\<lparr>dl_blob = ResponseBlob res, dl_name = ''truthsig-evidence-'' @ eid @ ''.pdf''\<rparr>]\<rparr>"
  using assms
  by (simp add: generateEvidenceReport_def generateEvidenceReport_try_def downloadBlob_def
        render_def Let_def)

text \<open>
  Claim C1, at a response the claim speaks of: a successful response of content type
  \<^verbatim>\<open>application/json\<close> whose body parses to an object with the rendered text under
  \<^verbatim>\<open>markdown\<close>. The per-evidence caller saves the raw body as
  \<^verbatim>\<open>truthsig-evidence-e1.pdf\<close> and reports no error; the case-level caller, given the same
  response, saves the text as \<^verbatim>\<open>truthsig-report-c1.md\<close>.
\<close>

theorem generateEvidenceReport_json_saved_as_pdf:
  "generateEvidenceReport ''c1'' (Some ''e1'')
     (Resolved \<lparr>ok = True, content_type = Some ''application/json'', body = b\<rparr>)
     \<lparr>busy = False, err = None, downloads = []\<rparr>
   = \<lparr>busy = False, err = None,
      downloads =
        [\<lparr>dl_blob = ResponseBlob \<lparr>ok = True, content_type = Some ''application/json'', body = b\<rparr>,
          dl_name = ''truthsig-evidence-e1.pdf''\<rparr>]\<rparr>
   \<and> generateReport (\<lambda>t. Some (Obj [(''markdown'', Str ''# Report'')])) js ''c1''
     (Resolved \<lparr>ok = True, content_type = Some ''application/json'', body = b\<rparr>)
     \<lparr>busy = False, err = None, downloads = []\<rparr>
   = \<lparr>busy = False,
      err = Some ''Backend returned MARKDOWN (not PDF). Downloaded as .md. If you want PDF, backend must return application/pdf.'',
      downloads =
        [\<lparr>dl_blob = Blob ''# Report'' ''text/markdown;charset=utf-8'',
          dl_name = ''truthsig-report-c1.md''\<rparr>]\<rparr>"
  by (simp add: generateEvidenceReport_def generateEvidenceReport_try_def generateReport_def
        generateReport_try_def downloadBlob_def render_def or_else_def Let_def
        lower_char_def opt_chain_def trim_def strip.simps leading_def white_space_def)

section \<open>Properties of the custody ledger\<close>

lemma linked_snoc:
  "linked hs prev (evs @ [e]) \<longleftrightarrow>
     linked hs prev evs \<and>
     H_combined hs (H_payload hs (hashed_content e),
                    (case evs of [] \<Rightarrow> prev | _ \<Rightarrow> combined_hash (last evs)))
       = combined_hash e"
proof (induction evs arbitrary: prev)
  case Nil
  show ?case by simp
next
  case (Cons a evs)
  show ?case using Cons.IH [of "combined_hash a"] by (cases evs) auto
qed

lemma linked_append_event:
  assumes "linked hs (zero_hash hs) evs"
  shows "linked hs (zero_hash hs) (append_event hs evs eid cid etype act t pl)"
proof -
  have "chain_head hs evs = (case evs of [] \<Rightarrow> zero_hash hs | _ \<Rightarrow> combined_hash (last evs))"
    by (simp add: chain_head_def)
  with assms show ?thesis
    by (simp add: append_event_def Let_def linked_snoc hashed_content_def)
qed

lemma linked_foldl_append:
  assumes "linked hs (zero_hash hs) acc"
  shows "linked hs (zero_hash hs)
           (foldl (\<lambda>evs i. append_event hs evs (in_id i) (in_case i) (in_type i) (in_actor i)
                      (in_time i) (in_payload i)) acc inputs)"
  using assms
proof (induction inputs arbitrary: acc)
  case Nil
  then show ?case by simp
next
  case (Cons i inputs)
  from Cons.prems have "linked hs (zero_hash hs)
      (append_event hs acc (in_id i) (in_case i) (in_type i) (in_actor i) (in_time i) (in_payload i))"
    by (rule linked_append_event)
  then show ?case by (simp add: Cons.IH)
qed

lemma linked_build_chain: "linked hs (zero_hash hs) (build_chain hs inputs)"
  unfolding build_chain_def by (rule linked_foldl_append) simp

lemma linked_verifies: "linked hs prev evs \<Longrightarrow> verify_from hs prev evs = Inr ()"
proof (induction evs arbitrary: prev)
  case Nil
  show ?case by simp
next
  case (Cons a evs)
  from Cons.prems have stored: "H_combined hs (H_payload hs (hashed_content a), prev) = combined_hash a"
    and rest: "linked hs (combined_hash a) evs" by simp_all
  from Cons.IH [OF rest] show ?case by (simp add: Let_def stored)
qed

lemma linked_take: "linked hs prev evs \<Longrightarrow> linked hs prev (take i evs)"
proof (induction evs arbitrary: prev i)
  case Nil
  show ?case by simp
next
  case (Cons a evs)
  then show ?case by (cases i) simp_all
qed

lemma mutated_event_halts_walk:
  assumes "combine_collision_free hs"
    and "linked hs prev evs" and "i < length evs"
    and "combined_hash e' = combined_hash (evs ! i)"
    and "H_payload hs (hashed_content e') \<noteq> H_payload hs (hashed_content (evs ! i))"
  shows "verify_from hs prev (take i evs @ e' # rest) = Inl (ChainIntegrityViolation (event_id e'))"
  using assms(2-)
proof (induction evs arbitrary: prev i)
  case Nil
  then show ?case by simp
next
  case (Cons a evs)
  show ?case
  proof (cases i)
    case 0
    from Cons.prems(1) have stored: "H_combined hs (H_payload hs (hashed_content a), prev) = combined_hash a"
      by simp
    have "H_combined hs (H_payload hs (hashed_content e'), prev) \<noteq> combined_hash e'"
    proof
      assume "H_combined hs (H_payload hs (hashed_content e'), prev) = combined_hash e'"
      with Cons.prems(3) 0 stored
      have "H_combined hs (H_payload hs (hashed_content e'), prev)
              = H_combined hs (H_payload hs (hashed_content a), prev)" by simp
      with assms(1) have "H_payload hs (hashed_content e') = H_payload hs (hashed_content a)"
        unfolding combine_collision_free_def by blast
      with Cons.prems(4) 0 show False by simp
    qed
    with 0 show ?thesis by (simp add: Let_def)
  next
    case (Suc n)
    from Cons.prems(1) have stored: "H_combined hs (H_payload hs (hashed_content a), prev) = combined_hash a"
      and rest: "linked hs (combined_hash a) evs" by simp_all
    from Cons.prems Suc have "verify_from hs (combined_hash a) (take n evs @ e' # rest)
        = Inl (ChainIntegrityViolation (event_id e'))"
      by (intro Cons.IH [OF rest]) simp_all
    with Suc stored show ?thesis by (simp add: Let_def)
  qed
qed

lemma flip_bit_changes_byte:
  fixes w :: byte
  assumes "j < 8"
  shows "flip_bit j w \<noteq> w"
proof
  assume "flip_bit j w = w"
  then have "bit (flip_bit j w) j = bit w j" by simp
  with assms show False by (simp add: bit_flip_bit_iff)
qed

lemma flip_bit_at_changes:
  assumes "k < length bs" "j < 8"
  shows "flip_bit_at bs k j \<noteq> bs"
proof
  assume "flip_bit_at bs k j = bs"
  then have "flip_bit_at bs k j ! k = bs ! k" by simp
  with assms(1) have "flip_bit j (bs ! k) = bs ! k" by (simp add: flip_bit_at_def)
  with flip_bit_changes_byte [OF assms(2)] show False by blast
qed

lemma mutate_changes_content:
  assumes "k < length (field_bytes e f)" "j < 8"
  shows "hashed_content (mutate e f k j) \<noteq> hashed_content e"
  using assms flip_bit_at_changes [of k _ j]
  by (cases f) (auto simp add: hashed_content_def)

text \<open>Under a payload hash without collisions, the flipped bit changes the payload hash.\<close>

lemma mutate_changes_payload_hash:
  assumes "inj (H_payload hs)" "k < length (field_bytes e f)" "j < 8"
  shows "H_payload hs (hashed_content (mutate e f k j)) \<noteq> H_payload hs (hashed_content e)"
  using mutate_changes_content [OF assms(2,3)] assms(1) by (auto dest: injD)

lemma mutate_keeps_stored:
  "event_id (mutate e f k j) = event_id e"
  "combined_hash (mutate e f k j) = combined_hash e"
  "payload_hash (mutate e f k j) = payload_hash e"
  "prev_event_hash (mutate e f k j) = prev_event_hash e"
  by (cases f; simp)+

text \<open>
  Claim C2. Take any chain built by appends, any event of it and any single bit of its
  hashed content (event type, actor, creation time or application payload), flipped
  while the stored hashes stay. The content changes. Provided the hashing is free of
  collisions there (the combined hash determines the payload hash, and the changed
  content does not hash to the payload hash of the original), the walk, which accepts
  the chain as built and the events before the changed one, fails on the changed chain
  with \<open>ChainIntegrityViolation\<close> naming that event; and it halts there: whatever events
  follow the changed one, the result is the same.
\<close>

theorem ledger_walk_detects_mutation:
  assumes "combine_collision_free hs"
    and "i < length (build_chain hs inputs)"
    and "k < length (field_bytes (build_chain hs inputs ! i) f)" and "j < 8"
    and "H_payload hs (hashed_content (mutate (build_chain hs inputs ! i) f k j))
           \<noteq> H_payload hs (hashed_content (build_chain hs inputs ! i))"
  shows "verify_chain hs (build_chain hs inputs) = Inr ()
       \<and> verify_chain hs (take i (build_chain hs inputs)) = Inr ()
       \<and> hashed_content (mutate (build_chain hs inputs ! i) f k j)
           \<noteq> hashed_content (build_chain hs inputs ! i)
       \<and> verify_chain hs ((build_chain hs inputs)[i := mutate (build_chain hs inputs ! i) f k j])
           = Inl (ChainIntegrityViolation (event_id (build_chain hs inputs ! i)))
       \<and> (\<forall>rest. verify_chain hs
             (take i (build_chain hs inputs) @ mutate (build_chain hs inputs ! i) f k j # rest)
           = Inl (ChainIntegrityViolation (event_id (build_chain hs inputs ! i))))"
proof -
  let ?evs = "build_chain hs inputs"
  let ?e' = "mutate (?evs ! i) f k j"
  have ok: "verify_chain hs ?evs = Inr ()"
    unfolding verify_chain_def by (rule linked_verifies) (rule linked_build_chain)
  have before: "verify_chain hs (take i ?evs) = Inr ()"
    unfolding verify_chain_def
    by (rule linked_verifies) (rule linked_take, rule linked_build_chain)
  have changed: "hashed_content ?e' \<noteq> hashed_content (?evs ! i)"
    using assms(3,4) by (rule mutate_changes_content)
  have halt: "verify_from hs (zero_hash hs) (take i ?evs @ ?e' # rest)
      = Inl (ChainIntegrityViolation (event_id (?evs ! i)))" for rest
    using mutated_event_halts_walk [OF assms(1) linked_build_chain assms(2) _ assms(5), of rest]
    by (simp add: mutate_keeps_stored)
  have "?evs[i := ?e'] = take i ?evs @ ?e' # drop (Suc i) ?evs"
    using assms(2) by (rule upd_conv_take_nth_drop)
  with halt have "verify_chain hs (?evs[i := ?e'])
      = Inl (ChainIntegrityViolation (event_id (?evs ! i)))"
    by (simp add: verify_chain_def)
  with ok before changed halt show ?thesis by (simp add: verify_chain_def)
qed

lemma toy_collision_free: "combine_collision_free toy_hashing"
  by (simp add: combine_collision_free_def toy_hashing_def)

lemma example_chain:
  "build_chain toy_hashing example_inputs =
     [\<lparr>event_id = 1, case_id = 7, event_type = [1], actor = [2], created_at = [3],
        payload = [4, 5], payload_hash = [[1], [2], [3], [4, 5]], prev_event_hash = [],
        combined_hash = [[1], [2], [3], [4, 5]]\<rparr>,
      \<lparr>event_id = 2, case_id = 7, event_type = [6], actor = [2], created_at = [4],
        payload = [9], payload_hash = [[6], [2], [4], [9]],
        prev_event_hash = [[1], [2], [3], [4, 5]],
        combined_hash = [[6], [2], [4], [9], [1], [2], [3], [4, 5]]\<rparr>,
      \<lparr>event_id = 3, case_id = 7, event_type = [1], actor = [8], created_at = [5],
        payload = [], payload_hash = [[1], [8], [5], []],
        prev_event_hash = [[6], [2], [4], [9], [1], [2], [3], [4, 5]],
        combined_hash = [[1], [8], [5], [], [6], [2], [4], [9], [1], [2], [3], [4, 5]]\<rparr>]"
  by (simp add: build_chain_def example_inputs_def append_event_def chain_head_def
        toy_hashing_def Let_def)

theorem ledger_walk_detects_mutation_witness:
  "combine_collision_free toy_hashing
   \<and> verify_chain toy_hashing (build_chain toy_hashing example_inputs) = Inr ()
   \<and> verify_chain toy_hashing
        ((build_chain toy_hashing example_inputs)
           [1 := (build_chain toy_hashing example_inputs ! 1)\<lparr>payload := [8]\<rparr>])
      = Inl (ChainIntegrityViolation 2)"
proof -
  have e1: "build_chain toy_hashing example_inputs ! Suc 0 =
      \<lparr>event_id = 2, case_id = 7, event_type = [6], actor = [2], created_at = [4],
        payload = [9], payload_hash = [[6], [2], [4], [9]],
        prev_event_hash = [[1], [2], [3], [4, 5]],
        combined_hash = [[6], [2], [4], [9], [1], [2], [3], [4, 5]]\<rparr>"
    by (simp add: example_chain)
  have fl: "flip_bit 0 (9 :: byte) = 8" by simp
  have m: "mutate (build_chain toy_hashing example_inputs ! 1) Payload 0 0
      = (build_chain toy_hashing example_inputs ! 1)\<lparr>payload := [8]\<rparr>"
    by (simp add: e1 flip_bit_at_def fl)
  have h2: "1 < length (build_chain toy_hashing example_inputs)" by (simp add: example_chain)
  have h3: "0 < length (field_bytes (build_chain toy_hashing example_inputs ! 1) Payload)"
    by (simp add: e1)
  have h4: "(0::nat) < 8" by simp
  have hp: "H_payload toy_hashing = (\<lambda>(a, b, c, d). [a, b, c, d])"
    by (simp add: toy_hashing_def)
  have h5: "H_payload toy_hashing
        (hashed_content (mutate (build_chain toy_hashing example_inputs ! 1) Payload 0 0))
      \<noteq> H_payload toy_hashing (hashed_content (build_chain toy_hashing example_inputs ! 1))"
    unfolding m by (simp add: e1 hp hashed_content_def)
  from ledger_walk_detects_mutation [OF toy_collision_free h2 h3 h4 h5]
  show ?thesis unfolding m using toy_collision_free by (simp add: e1)
qed

section \<open>Properties of the video analyzer\<close>

lemma sort_key_completion_order:
  assumes "distinct (map frame_index xs)" "mset ys = mset xs"
  shows "sort_key frame_index ys = sort_key frame_index xs"
proof -
  from assms(1) have "inj_on frame_index (set xs)" by (simp add: distinct_map)
  moreover from assms(2) have "set ys = set xs" by (rule mset_eq_setD)
  ultimately have i: "inj_on frame_index (set ys)" by simp
  have m: "mset ys = mset (sort_key frame_index xs)" using assms(2) by simp
  have s: "sorted (map frame_index (sort_key frame_index xs))" by simp
  from m i s show ?thesis by (rule sort_key_inj_key_eq)
qed

lemma sampled_strictly_ascending:
  assumes "distinct (map frame_index xs)"
  shows "sorted_wrt (<) (map frame_index (take n (filter P (sort_key frame_index xs))))"
proof -
  let ?s = "sort_key frame_index xs"
  have "sorted (map frame_index ?s)" by simp
  then have s: "sorted (map frame_index (filter P ?s))" by (rule sorted_filter)
  have "distinct (map frame_index ?s)" using assms by (simp add: distinct_map)
  then have d: "distinct (map frame_index (filter P ?s))" by (rule distinct_map_filter)
  from s d have "sorted_wrt (<) (map frame_index (filter P ?s))"
    by (simp add: strict_sorted_iff)
  then have "sorted_wrt (<) (take n (map frame_index (filter P ?s)))"
    by (rule sorted_wrt_take)
  then show ?thesis by (simp add: take_map)
qed

lemma three_flagged:
  fixes L :: "nat list"
  assumes "sorted L" "distinct L" "{7, 14, 22} \<subseteq> set L"
  shows "filter (\<lambda>i. i \<in> {7, 14, 22}) L = [7, 14, 22]"
proof (rule sorted_distinct_set_unique)
  show "sorted (filter (\<lambda>i. i \<in> {7, 14, 22}) L)" using assms(1) by (rule sorted_wrt_filter)
  show "distinct (filter (\<lambda>i. i \<in> {7, 14, 22}) L)" using assms(2) by simp
  show "sorted [7, 14, 22 :: nat]" by simp
  show "distinct [7, 14, 22 :: nat]" by simp
  show "set (filter (\<lambda>i. i \<in> {7, 14, 22}) L) = set [7, 14, 22]" using assms(3) by auto
qed

text \<open>
  Claim C5, as amended. When every sampled frame is analysed once, the flagged-frame
  list is in strictly ascending order of frame index and no longer than the maximum
  reported count, and any other completion order of the same per-frame results gives the
  same list. In the scenario (frames 7, 14 and 22 are sampled and are exactly the frames
  whose score exceeds the threshold), when the maximum reported count is at least three
  and the baseline test flags no frame other than 7, 14 and 22, the flagged indices are
  exactly 7, 14, 22.
\<close>

theorem flagged_frames_ascending_capped_order_independent:
  assumes "distinct (map frame_index completed)"
    and "mset completed' = mset completed"
  shows "sorted_wrt (<) (map frame_index (flagged_frames cfg deviates completed))
       \<and> length (flagged_frames cfg deviates completed) \<le> max_reported cfg
       \<and> flagged_frames cfg deviates completed' = flagged_frames cfg deviates completed
       \<and> (3 \<le> max_reported cfg
            \<and> {7, 14, 22} \<subseteq> frame_index ` set completed
            \<and> (\<forall>r \<in> set completed.
                  (abs_threshold cfg < anomaly_score r) = (frame_index r \<in> {7, 14, 22}))
            \<and> (\<forall>r \<in> set completed.
                  deviates (sort_key frame_index completed) r \<longrightarrow> frame_index r \<in> {7, 14, 22})
          \<longrightarrow> map frame_index (flagged_frames cfg deviates completed) = [7, 14, 22])"
proof -
  let ?s = "sort_key frame_index completed"
  have asc: "sorted_wrt (<) (map frame_index (flagged_frames cfg deviates completed))"
    unfolding flagged_frames_def Let_def using assms(1) by (rule sampled_strictly_ascending)
  have cap: "length (flagged_frames cfg deviates completed) \<le> max_reported cfg"
    by (simp add: flagged_frames_def Let_def)
  have perm: "flagged_frames cfg deviates completed' = flagged_frames cfg deviates completed"
    unfolding flagged_frames_def Let_def sort_key_completion_order [OF assms] ..
  have scen: "map frame_index (flagged_frames cfg deviates completed) = [7, 14, 22]"
    if c: "3 \<le> max_reported cfg"
      and present: "{7, 14, 22} \<subseteq> frame_index ` set completed"
      and thr: "\<forall>r \<in> set completed.
                  (abs_threshold cfg < anomaly_score r) = (frame_index r \<in> {7, 14, 22})"
      and nodev: "\<forall>r \<in> set completed. deviates ?s r \<longrightarrow> frame_index r \<in> {7, 14, 22}"
  proof -
    have "filter (is_flagged cfg deviates ?s) ?s = filter (\<lambda>r. frame_index r \<in> {7, 14, 22}) ?s"
      using thr nodev by (intro filter_cong) (auto simp add: is_flagged_def)
    then have "map frame_index (filter (is_flagged cfg deviates ?s) ?s)
        = filter (\<lambda>i. i \<in> {7, 14, 22}) (map frame_index ?s)"
      by (simp add: filter_map o_def)
    also have "\<dots> = [7, 14, 22]"
    proof (rule three_flagged)
      show "sorted (map frame_index ?s)" by simp
      show "distinct (map frame_index ?s)" using assms(1) by (simp add: distinct_map)
      show "{7, 14, 22} \<subseteq> set (map frame_index ?s)" using present by simp
    qed
    finally have m: "map frame_index (filter (is_flagged cfg deviates ?s) ?s) = [7, 14, 22]" .
    then have "length (filter (is_flagged cfg deviates ?s) ?s) = 3"
      by (metis length_map length_Cons list.size(3) numeral_3_eq_3)
    with c have "take (max_reported cfg) (filter (is_flagged cfg deviates ?s) ?s)
        = filter (is_flagged cfg deviates ?s) ?s" by simp
    with m show ?thesis by (simp add: flagged_frames_def Let_def)
  qed
  from asc cap perm scen show ?thesis by blast
qed

text \<open>
  The scenario as the claim states it, without the two provisos, fails: of the thirty
  frames, exactly 7, 14 and 22 exceed the threshold, yet a maximum reported count of two
  gives 7, 14, and a baseline test that compares a frame with its neighbours also flags
  the frames next to the three (capped at five: 6, 7, 8, 13, 14).
\<close>

theorem flagged_frames_scenario_counterexample:
  "length thirty_frames = 30
   \<and> exceeding two_frame_cap thirty_frames = [7, 14, 22]
   \<and> map frame_index (flagged_frames two_frame_cap no_baseline thirty_frames) = [7, 14]
   \<and> exceeding example_config thirty_frames = [7, 14, 22]
   \<and> map frame_index (flagged_frames example_config neighbour_baseline thirty_frames)
       = [6, 7, 8, 13, 14]"
  by code_simp

lemma thirty_frames_indices: "map frame_index thirty_frames = rev [0..<30]"
  by (simp add: thirty_frames_def o_def rev_map)

lemma thirty_frames_threshold:
  "\<forall>r \<in> set thirty_frames.
      (abs_threshold example_config < anomaly_score r) = (frame_index r \<in> {7, 14, 22})"
  by code_simp

lemma thirty_frames_mean_baseline:
  "\<forall>r \<in> set thirty_frames.
      mean_baseline (sort_key frame_index thirty_frames) r \<longrightarrow> frame_index r \<in> {7, 14, 22}"
  by code_simp

lemma mean_baseline_flags_some:
  "list_ex (mean_baseline (sort_key frame_index thirty_frames)) thirty_frames"
  by code_simp

theorem flagged_frames_witness:
  "distinct (map frame_index thirty_frames)
   \<and> mset (rev thirty_frames) = mset thirty_frames
   \<and> length thirty_frames = 30
   \<and> exceeding example_config thirty_frames = [7, 14, 22]
   \<and> list_ex (mean_baseline (sort_key frame_index thirty_frames)) thirty_frames
   \<and> flagged_frames example_config mean_baseline (rev thirty_frames)
       = flagged_frames example_config mean_baseline thirty_frames
   \<and> map frame_index (flagged_frames example_config mean_baseline thirty_frames) = [7, 14, 22]"
proof -
  have h1: "distinct (map frame_index thirty_frames)"
    by (simp add: thirty_frames_indices)
  have h2: "mset (rev thirty_frames) = mset thirty_frames" by simp
  have len: "length thirty_frames = 30" by (simp add: thirty_frames_def)
  have exc: "exceeding example_config thirty_frames = [7, 14, 22]" by code_simp
  have s1: "3 \<le> max_reported example_config" by (simp add: example_config_def)
  have "frame_index ` set thirty_frames = set (map frame_index thirty_frames)" by simp
  also have "\<dots> = {0..<30}" by (simp only: thirty_frames_indices set_rev set_upt)
  finally have s2: "{7, 14, 22} \<subseteq> frame_index ` set thirty_frames" by simp
  from flagged_frames_ascending_capped_order_independent
    [OF h1 h2, of example_config mean_baseline] s1 s2
    thirty_frames_threshold thirty_frames_mean_baseline
  have "flagged_frames example_config mean_baseline (rev thirty_frames)
          = flagged_frames example_config mean_baseline thirty_frames"
    and "map frame_index (flagged_frames example_config mean_baseline thirty_frames) = [7, 14, 22]"
    by blast+
  with h1 h2 len exc mean_baseline_flags_some show ?thesis by blast
qed

section \<open>Properties of the content store\<close>

lemma find_snoc_new:
  "find P xs = None \<Longrightarrow> P e \<Longrightarrow> find P (xs @ [e]) = Some e"
  by (induction xs) (simp_all split: if_splits)

lemma upload_duplicate:
  assumes "sniff rules content = Some kind"
    and "find (\<lambda>e. ev_case_id e = cid \<and> digest e = digest_of rules content) (evidence_table st)
           = Some e"
  shows "upload rules hs st cid fname content act now =
     Inr (e,
          st\<lparr>ledgers := (ledgers st)
                (cid := append_event hs (ledgers st cid) (next_event_id st) cid
                          (bytes_of ''duplicate-detected'') act now
                          (bytes_of (digest_of rules content))),
             next_event_id := next_event_id st + 1\<rparr>)"
  using assms by (simp add: upload_def Let_def)

lemma upload_registers:
  assumes "upload rules hs st cid fname content act now = Inr (e, st1)"
  shows "sniff rules content \<noteq> None
       \<and> find (\<lambda>e. ev_case_id e = cid \<and> digest e = digest_of rules content) (evidence_table st1)
           = Some e"
proof (cases "sniff rules content")
  case None
  with assms show ?thesis by (simp add: upload_def Let_def)
next
  case (Some kind)
  show ?thesis
  proof (cases "find (\<lambda>e. ev_case_id e = cid \<and> digest e = digest_of rules content)
                  (evidence_table st)")
    case None
    with Some assms show ?thesis
      by (auto simp add: upload_def Let_def find_snoc_new)
  next
    case (Some e0)
    with \<open>sniff rules content = Some kind\<close> assms show ?thesis
      by (auto simp add: upload_def Let_def)
  qed
qed

lemma upload_keeps_unique:
  assumes "distinct (map (\<lambda>e. (ev_case_id e, digest e)) (evidence_table st))"
    and "upload rules hs st cid fname content act now = Inr (e, st1)"
  shows "distinct (map (\<lambda>e. (ev_case_id e, digest e)) (evidence_table st1))"
proof (cases "sniff rules content")
  case None
  with assms(2) show ?thesis by (simp add: upload_def Let_def)
next
  case (Some kind)
  show ?thesis
  proof (cases "find (\<lambda>e. ev_case_id e = cid \<and> digest e = digest_of rules content)
                  (evidence_table st)")
    case None
    then have "(cid, digest_of rules content)
        \<notin> set (map (\<lambda>e. (ev_case_id e, digest e)) (evidence_table st))"
      by (auto simp add: find_None_iff)
    with None Some assms show ?thesis by (auto simp add: upload_def Let_def)
  next
    case (Some e0)
    with \<open>sniff rules content = Some kind\<close> assms show ?thesis
      by (auto simp add: upload_def Let_def)
  qed
qed

lemma find_present:
  assumes "e0 \<in> set xs" "P e0"
  shows "\<exists>e. find P xs = Some e \<and> e \<in> set xs \<and> P e"
proof (cases "find P xs")
  case None
  with assms show ?thesis by (auto simp add: find_None_iff)
next
  case (Some e)
  then show ?thesis by (auto simp add: find_Some_iff)
qed

lemma find_append_keeps: "find P xs = Some e \<Longrightarrow> find P (xs @ ys) = Some e"
  by (induction xs) (simp_all split: if_splits)

lemma upload_keeps_earlier:
  assumes "find P (evidence_table st) = Some e"
    and "upload rules hs st cid fname content act now = Inr (e', st')"
  shows "find P (evidence_table st') = Some e"
proof (cases "sniff rules content")
  case None
  with assms(2) show ?thesis by (simp add: upload_def Let_def)
next
  case (Some kind)
  show ?thesis
  proof (cases "find (\<lambda>e. ev_case_id e = cid \<and> digest e = digest_of rules content)
                  (evidence_table st)")
    case None
    with Some assms show ?thesis
      by (auto simp add: upload_def Let_def find_append_keeps)
  next
    case (Some e1)
    with \<open>sniff rules content = Some kind\<close> assms show ?thesis
      by (auto simp add: upload_def Let_def)
  qed
qed

text \<open>
  Claim C4. When the digest of the content already exists in the case (a record of the
  evidence table has that case and that digest) and the bytes are of a supported media
  kind (as every accepted upload of them shows, by \<open>upload_registers\<close>), an upload of
  these bytes to that case, under any file name, succeeds and returns a record of the
  table with that case and that digest: the record at hand, when the table holds one
  record per case and digest, which uploads maintain (\<open>upload_keeps_unique\<close>). The
  evidence table, the blob store, the job queue and the next evidence identifier are as
  before; the ledger of that case has one more event, of type duplicate-detected, and the
  ledgers of the other cases are as before.
\<close>

theorem upload_idempotent:
  assumes "e0 \<in> set (evidence_table st)"
    and "ev_case_id e0 = cid" and "digest e0 = digest_of rules content"
    and "sniff rules content = Some kind"
  shows "\<exists>e st2 ev.
           upload rules hs st cid fname content act now = Inr (e, st2)
         \<and> e \<in> set (evidence_table st)
         \<and> ev_case_id e = cid
         \<and> digest e = digest_of rules content
         \<and> (distinct (map (\<lambda>x. (ev_case_id x, digest x)) (evidence_table st)) \<longrightarrow> e = e0)
         \<and> evidence_table st2 = evidence_table st
         \<and> blobs st2 = blobs st
         \<and> job_queue st2 = job_queue st
         \<and> next_evidence_id st2 = next_evidence_id st
         \<and> ledgers st2 cid = ledgers st cid @ [ev]
         \<and> event_type ev = bytes_of ''duplicate-detected''
         \<and> (\<forall>c. c \<noteq> cid \<longrightarrow> ledgers st2 c = ledgers st c)"
proof -
  let ?P = "\<lambda>e. ev_case_id e = cid \<and> digest e = digest_of rules content"
  from find_present [of e0 "evidence_table st" ?P] assms(1-3)
  obtain e where f: "find ?P (evidence_table st) = Some e"
    and mem: "e \<in> set (evidence_table st)"
    and key: "ev_case_id e = cid" "digest e = digest_of rules content" by auto
  let ?st2 = "st\<lparr>ledgers := (ledgers st)
                (cid := append_event hs (ledgers st cid) (next_event_id st) cid
                          (bytes_of ''duplicate-detected'') act now
                          (bytes_of (digest_of rules content))),
             next_event_id := next_event_id st + 1\<rparr>"
  have up: "upload rules hs st cid fname content act now = Inr (e, ?st2)"
    using assms(4) f by (rule upload_duplicate)
  have led: "\<exists>ev. ledgers ?st2 cid = ledgers st cid @ [ev]
      \<and> event_type ev = bytes_of ''duplicate-detected''"
    by (simp add: append_event_def Let_def)
  have same: "e = e0" if "distinct (map (\<lambda>x. (ev_case_id x, digest x)) (evidence_table st))"
  proof -
    from that have "inj_on (\<lambda>x. (ev_case_id x, digest x)) (set (evidence_table st))"
      by (simp add: distinct_map)
    moreover have "(ev_case_id e, digest e) = (ev_case_id e0, digest e0)"
      using key assms(2,3) by simp
    ultimately show ?thesis using mem assms(1) by (auto dest: inj_onD)
  qed
  from up led mem key same show ?thesis by auto
qed

text \<open>
  In particular, after an accepted upload and any other accepted upload, uploading the
  first bytes again returns the first record and adds nothing.
\<close>

lemma reupload_after_another_upload:
  assumes "upload rules hs st cid fname content act now = Inr (e, st1)"
    and "upload rules hs st1 cid' fname' content' act' now' = Inr (e', st2)"
  shows "\<exists>st3. upload rules hs st2 cid fname'' content act'' now'' = Inr (e, st3)
              \<and> evidence_table st3 = evidence_table st2
              \<and> blobs st3 = blobs st2
              \<and> job_queue st3 = job_queue st2"
proof -
  from upload_registers [OF assms(1)] obtain kind where
    k: "sniff rules content = Some kind" and
    f: "find (\<lambda>e. ev_case_id e = cid \<and> digest e = digest_of rules content) (evidence_table st1)
          = Some e" by auto
  from f assms(2)
  have "find (\<lambda>e. ev_case_id e = cid \<and> digest e = digest_of rules content) (evidence_table st2)
          = Some e" by (rule upload_keeps_earlier)
  with k show ?thesis by (simp add: upload_duplicate)
qed

lemma first_upload:
  "upload toy_rules toy_hashing empty_store 7 ''a.jpg'' [255, 216, 1] [] []
     = Inr (first_evidence, store_after_first)"
  by (simp add: upload_def toy_rules_def empty_store_def first_evidence_def
        store_after_first_def Let_def)

lemma toy_digests_differ:
  "digest_of toy_rules [255, 216, 1] \<noteq> digest_of toy_rules [255, 216, 2]"
  by code_simp

lemma second_upload:
  "upload toy_rules toy_hashing store_after_first 7 ''b.jpg'' [255, 216, 2] [] []
     = Inr (second_evidence, store_after_second)"
proof -
  have s: "sniff toy_rules [255, 216, 2] = Some Image" by (simp add: toy_rules_def)
  have "find (\<lambda>e. ev_case_id e = 7 \<and> digest e = digest_of toy_rules [255, 216, 2])
          (evidence_table store_after_first) = None"
    using toy_digests_differ by (simp add: store_after_first_def first_evidence_def)
  with s show ?thesis
    by (simp add: upload_def Let_def store_after_first_def second_evidence_def
          store_after_second_def)
qed

theorem upload_idempotent_witness:
  "first_evidence \<in> set (evidence_table store_after_second)
   \<and> ev_case_id first_evidence = 7
   \<and> digest first_evidence = digest_of toy_rules [255, 216, 1]
   \<and> sniff toy_rules [255, 216, 1] = Some Image
   \<and> (\<exists>st2 ev.
         upload toy_rules toy_hashing store_after_second 7 ''again.jpg'' [255, 216, 1] [] []
           = Inr (first_evidence, st2)
       \<and> evidence_table st2 = [first_evidence, second_evidence]
       \<and> blobs st2 = blobs store_after_second
       \<and> job_queue st2 = [1, 2]
       \<and> ledgers st2 7 = [ev]
       \<and> event_type ev = bytes_of ''duplicate-detected'')"
proof -
  have h1: "first_evidence \<in> set (evidence_table store_after_second)"
    by (simp add: store_after_second_def)
  have h2: "ev_case_id first_evidence = 7" by (simp add: first_evidence_def)
  have h3: "digest first_evidence = digest_of toy_rules [255, 216, 1]"
    by (simp add: first_evidence_def)
  have h4: "sniff toy_rules [255, 216, 1] = Some Image" by (simp add: toy_rules_def)
  have d: "distinct (map (\<lambda>x. (ev_case_id x, digest x)) (evidence_table store_after_second))"
    using toy_digests_differ
    by (simp add: store_after_second_def first_evidence_def second_evidence_def)
  from upload_idempotent [OF h1 h2 h3 h4, of toy_hashing "''again.jpg''" "[]" "[]"] d
  obtain e st2 ev where
    "upload toy_rules toy_hashing store_after_second 7 ''again.jpg'' [255, 216, 1] [] []
       = Inr (e, st2)"
    "e = first_evidence"
    "evidence_table st2 = evidence_table store_after_second"
    "blobs st2 = blobs store_after_second"
    "job_queue st2 = job_queue store_after_second"
    "ledgers st2 7 = ledgers store_after_second 7 @ [ev]"
    "event_type ev = bytes_of ''duplicate-detected''"
    by blast
  then have "upload toy_rules toy_hashing store_after_second 7 ''again.jpg'' [255, 216, 1] [] []
           = Inr (first_evidence, st2)
       \<and> evidence_table st2 = [first_evidence, second_evidence]
       \<and> blobs st2 = blobs store_after_second
       \<and> job_queue st2 = [1, 2]
       \<and> ledgers st2 7 = [ev]
       \<and> event_type ev = bytes_of ''duplicate-detected''"
    by (simp add: store_after_second_def)
  then have "\<exists>st2 ev.
         upload toy_rules toy_hashing store_after_second 7 ''again.jpg'' [255, 216, 1] [] []
           = Inr (first_evidence, st2)
       \<and> evidence_table st2 = [first_evidence, second_evidence]
       \<and> blobs st2 = blobs store_after_second
       \<and> job_queue st2 = [1, 2]
       \<and> ledgers st2 7 = [ev]
       \<and> event_type ev = bytes_of ''duplicate-detected''" by blast
  with h1 h2 h3 h4 show ?thesis by blast
qed

end
